theory Spec2Isabelle
  imports Complex_Main
begin

section \<open>Data model\<close>

text \<open>
  The site is driven by a static route table \<^verbatim>\<open>ROUTES\<close> (imported from
  \<^verbatim>\<open>../const\<close>, which is not part of the sources at hand, so the table is a parameter of
  every function below). A route is an object with a \<^verbatim>\<open>path\<close>, a \<^verbatim>\<open>text\<close> (the field
  \<open>label\<close> here) and an optional array \<^verbatim>\<open>anchors\<close>; \<open>None\<close> stands for a route without
  that property (\<^verbatim>\<open>Array.isArray(undefined)\<close> is false).
\<close>

record route =
  path :: string
  label :: string
  anchors :: "string list option"

text \<open>The only exception the code can raise: reading a property of \<^verbatim>\<open>undefined\<close> or \<^verbatim>\<open>null\<close>.\<close>

datatype error = TypeError

text \<open>
  The values \<^verbatim>\<open>this.state.activeAnchor\<close> can hold: \<^verbatim>\<open>null\<close>, \<^verbatim>\<open>undefined\<close>
  (the element 0 of an empty array) or a string.
\<close>

datatype jsval = Null | Undefined | Str string

text \<open>Functions registered on the document for the \<^verbatim>\<open>scroll\<close> event.\<close>

datatype listener = DebouncedOnScroll | OtherListener nat

text \<open>
  The DOM as the tracker reads it: \<open>d i\<close> is the \<^verbatim>\<open>getBoundingClientRect().top\<close> of the
  element with identifier \<open>i\<close>, and \<open>None\<close> when \<^verbatim>\<open>document.getElementById(i)\<close> is
  \<^verbatim>\<open>null\<close>. The offset is a JavaScript number; the code only asks for the sign of
  \<^verbatim>\<open>top - 26\<close>, which is that of the exact difference, so a real number models it.
\<close>

type_synonym dom = "string \<Rightarrow> real option"

text \<open>
  A mounted page view: the component's state (\<open>sidebarVisible\<close>, \<open>activeAnchor\<close>), the
  set of scroll listeners of the document (a listener list of the DOM never holds the same
  function twice), and the trace of the identifiers handed to
  \<^verbatim>\<open>document.getElementById\<close>, oldest first.
\<close>

record page =
  sidebarVisible :: bool
  activeAnchor :: jsval
  scrollListeners :: "listener set"
  lookups :: "string list"

text \<open>
  How a method ends: normally, or by a thrown error; either way with the page as the
  method left it.
\<close>

datatype completion = Normal page | Thrown error page

fun pageOf :: "completion \<Rightarrow> page" where
  "pageOf (Normal pg) = pg"
| "pageOf (Thrown e pg) = pg"

fun completed :: "completion \<Rightarrow> bool" where
  "completed (Normal pg) = True"
| "completed (Thrown e pg) = False"

section \<open>JavaScript primitives\<close>

text \<open>\<^verbatim>\<open>s.replace(/c/g, r)\<close> for a one-character pattern: every occurrence is replaced.\<close>

fun replaceAll :: "char \<Rightarrow> string \<Rightarrow> string \<Rightarrow> string" where
  "replaceAll c r [] = []"
| "replaceAll c r (x # xs) = (if x = c then r @ replaceAll c r xs else x # replaceAll c r xs)"

text \<open>\<^verbatim>\<open>xs.findIndex(P)\<close>: the first index whose element satisfies \<open>P\<close>, and \<open>-1\<close> when none does.\<close>

fun findIndexFrom :: "('a \<Rightarrow> bool) \<Rightarrow> 'a list \<Rightarrow> int \<Rightarrow> int" where
  "findIndexFrom P [] k = - 1"
| "findIndexFrom P (x # xs) k = (if P x then k else findIndexFrom P xs (k + 1))"

definition findIndex :: "('a \<Rightarrow> bool) \<Rightarrow> 'a list \<Rightarrow> int" where
  "findIndex P xs = findIndexFrom P xs 0"

text \<open>\<^verbatim>\<open>xs[i]\<close>: \<open>None\<close> is \<^verbatim>\<open>undefined\<close>, the value of an index out of range.\<close>

definition jsIndex :: "'a list \<Rightarrow> int \<Rightarrow> 'a option" where
  "jsIndex xs i = (if 0 \<le> i \<and> i < int (length xs) then Some (xs ! nat i) else None)"

text \<open>\<^verbatim>\<open>anchors[0]\<close> as a value.\<close>

fun firstAnchor :: "string list \<Rightarrow> jsval" where
  "firstAnchor [] = Undefined"
| "firstAnchor (a # as) = Str a"

section \<open>The anchor identifier transform\<close>

text \<open>
  \<^verbatim>\<open>cleanAnchor\<close> is imported from \<^verbatim>\<open>./markdown-elements\<close>, which is missing from the
  sources; the layout and the navigation only call it. The spec describes it as a pure,
  total function that turns a heading into an identifier: "lowercase,
  whitespace/punctuation collapsed to hyphens", "symbol characters stripped/normalized,
  case-folded", with \<^verbatim>\<open>"Composing Styles"\<close> giving \<^verbatim>\<open>"composing-styles"\<close> and
  \<^verbatim>\<open>"$as prop"\<close> giving \<^verbatim>\<open>"as-prop"\<close>.
\<close>

text \<open>Modelled from the spec: the classes of ASCII characters the transform tells apart.\<close>

definition isUpper :: "char \<Rightarrow> bool" where
  "isUpper c = (65 \<le> (of_char c :: nat) \<and> (of_char c :: nat) \<le> 90)"

definition isLower :: "char \<Rightarrow> bool" where
  "isLower c = (97 \<le> (of_char c :: nat) \<and> (of_char c :: nat) \<le> 122)"

definition isDigit :: "char \<Rightarrow> bool" where
  "isDigit c = (48 \<le> (of_char c :: nat) \<and> (of_char c :: nat) \<le> 57)"

definition isAlnum :: "char \<Rightarrow> bool" where
  "isAlnum c = (isUpper c \<or> isLower c \<or> isDigit c)"

text \<open>Modelled from the spec: "lowercase", "case-folded", on the ASCII letters.\<close>

definition toLower :: "char \<Rightarrow> char" where
  "toLower c = (if isUpper c then char_of ((of_char c :: nat) + 32) else c)"

definition toLowerCase :: "string \<Rightarrow> string" where
  "toLowerCase s = map toLower s"

text \<open>
  Modelled from the spec: "whitespace/punctuation collapsed to hyphens". Every maximal run
  of characters other than ASCII letters and digits becomes one hyphen.
\<close>

fun collapse :: "string \<Rightarrow> string" where
  "collapse [] = []"
| "collapse [c] = [if isAlnum c then c else CHR ''-'']"
| "collapse (c # d # cs) =
     (if isAlnum c then c # collapse (d # cs)
      else if isAlnum d then CHR ''-'' # collapse (d # cs)
      else collapse (d # cs))"

text \<open>
  Modelled from the spec: "symbol characters stripped": the hyphens left at either end of
  the string are removed, as in \<^verbatim>\<open>"$as prop"\<close> giving \<^verbatim>\<open>"as-prop"\<close>.
\<close>

fun stripTrailing :: "string \<Rightarrow> string" where
  "stripTrailing [] = []"
| "stripTrailing (c # cs) =
     (if c = CHR ''-'' \<and> stripTrailing cs = [] then [] else c # stripTrailing cs)"

definition stripHyphens :: "string \<Rightarrow> string" where
  "stripHyphens s = stripTrailing (dropWhile (\<lambda>c. c = CHR ''-'') s)"

text \<open>
  Modelled from the spec: \<^verbatim>\<open>cleanAnchor\<close> of \<^verbatim>\<open>./markdown-elements\<close>, missing from the
  sources. It folds the case, collapses the runs of other characters to hyphens and strips
  the hyphens at both ends.
\<close>

definition cleanAnchor :: "string \<Rightarrow> string" where
  "cleanAnchor s = stripHyphens (collapse (toLowerCase s))"

section \<open>The layout component\<close>

text \<open>
  \<^verbatim>\<open>getPathIndex\<close>: the index of the first route whose path equals the current path once
  every \<^verbatim>\<open>/\<close> is removed from both.
\<close>

definition stripSeparators :: "string \<Rightarrow> string" where
  "stripSeparators s = replaceAll (CHR ''/'') [] s"

definition pathMatches :: "string \<Rightarrow> route \<Rightarrow> bool" where
  "pathMatches p r = (stripSeparators (path r) = stripSeparators p)"

definition getPathIndex :: "route list \<Rightarrow> string \<Rightarrow> int" where
  "getPathIndex ROUTES p = findIndex (pathMatches p) ROUTES"

text \<open>\<^verbatim>\<open>ROUTES[this.getPathIndex()]\<close>.\<close>

definition currentRoute :: "route list \<Rightarrow> string \<Rightarrow> route option" where
  "currentRoute ROUTES p = jsIndex ROUTES (getPathIndex ROUTES p)"

text \<open>
  The initial state of the class field \<^verbatim>\<open>state\<close>. The listeners already on the document
  are those of the environment.
\<close>

definition initialPage :: "route list \<Rightarrow> string \<Rightarrow> listener set \<Rightarrow> page" where
  "initialPage ROUTES p ls =
     \<lparr> sidebarVisible = False,
       activeAnchor =
         (case currentRoute ROUTES p of
            None \<Rightarrow> Null
          | Some r \<Rightarrow> (case anchors r of None \<Rightarrow> Null | Some as \<Rightarrow> firstAnchor as)),
       scrollListeners = ls,
       lookups = [] \<rparr>"

text \<open>
  The body of \<^verbatim>\<open>anchors.forEach\<close> in \<^verbatim>\<open>onScroll\<close>, threaded through the local variable
  \<^verbatim>\<open>activeAnchor\<close> and the trace of lookups. \<^verbatim>\<open>el.getBoundingClientRect()\<close> on a
  \<^verbatim>\<open>null\<close> element throws, which ends the loop.
\<close>

fun forEachAnchor :: "dom \<Rightarrow> string list \<Rightarrow> jsval \<Rightarrow> string list \<Rightarrow> error option \<times> jsval \<times> string list" where
  "forEachAnchor d [] act tr = (None, act, tr)"
| "forEachAnchor d (a # as) act tr =
     (case d (cleanAnchor a) of
        None \<Rightarrow> (Some TypeError, act, tr @ [cleanAnchor a])
      | Some elTop \<Rightarrow>
          forEachAnchor d as (if elTop - 26 < 0 then Str a else act) (tr @ [cleanAnchor a]))"

text \<open>
  \<^verbatim>\<open>onScroll\<close>. \<^verbatim>\<open>ROUTES[pathIndex].anchors\<close> throws when no route matches, and
  \<^verbatim>\<open>anchors[0]\<close> throws when the route has no anchors; \<^verbatim>\<open>setState\<close> is reached only when
  the loop ends normally.
\<close>

definition onScroll :: "route list \<Rightarrow> string \<Rightarrow> dom \<Rightarrow> page \<Rightarrow> completion" where
  "onScroll ROUTES p d pg =
     (case currentRoute ROUTES p of
        None \<Rightarrow> Thrown TypeError pg
      | Some r \<Rightarrow>
          (case anchors r of
             None \<Rightarrow> Thrown TypeError pg
           | Some as \<Rightarrow>
               (case forEachAnchor d as (firstAnchor as) (lookups pg) of
                  (Some e, act, tr) \<Rightarrow> Thrown e (pg\<lparr>lookups := tr\<rparr>)
                | (None, act, tr) \<Rightarrow> Normal (pg\<lparr>activeAnchor := act, lookups := tr\<rparr>))))"

definition componentDidMount :: "route list \<Rightarrow> string \<Rightarrow> dom \<Rightarrow> page \<Rightarrow> completion" where
  "componentDidMount ROUTES p d pg =
     (case currentRoute ROUTES p of
        None \<Rightarrow> Thrown TypeError pg
      | Some r \<Rightarrow>
          (case anchors r of
             None \<Rightarrow> Normal pg
           | Some as \<Rightarrow>
               onScroll ROUTES p d
                 (pg\<lparr>scrollListeners := insert DebouncedOnScroll (scrollListeners pg)\<rparr>)))"

definition componentWillUnmount :: "page \<Rightarrow> page" where
  "componentWillUnmount pg = pg\<lparr>scrollListeners := scrollListeners pg - {DebouncedOnScroll}\<rparr>"

text \<open>The burger button of \<^verbatim>\<open>render\<close>.\<close>

definition toggleSidebar :: "page \<Rightarrow> page" where
  "toggleSidebar pg = pg\<lparr>sidebarVisible := \<not> sidebarVisible pg\<rparr>"

text \<open>
  What can happen to a page view: it is mounted, the document delivers a (coalesced) scroll
  event while the DOM is \<open>d\<close>, the burger is clicked, the view is unmounted. A scroll event
  reaches \<^verbatim>\<open>onScroll\<close> only through the registered listener; an error thrown by a
  handler leaves the page as the handler left it.
\<close>

datatype event = Mount dom | Scroll dom | Toggle | Unmount

fun handle :: "route list \<Rightarrow> string \<Rightarrow> event \<Rightarrow> page \<Rightarrow> page" where
  "handle ROUTES p (Mount d) pg = pageOf (componentDidMount ROUTES p d pg)"
| "handle ROUTES p (Scroll d) pg =
     (if DebouncedOnScroll \<in> scrollListeners pg then pageOf (onScroll ROUTES p d pg) else pg)"
| "handle ROUTES p Toggle pg = toggleSidebar pg"
| "handle ROUTES p Unmount pg = componentWillUnmount pg"

fun run :: "route list \<Rightarrow> string \<Rightarrow> event list \<Rightarrow> page \<Rightarrow> page" where
  "run ROUTES p [] pg = pg"
| "run ROUTES p (e # es) pg = run ROUTES p es (handle ROUTES p e pg)"

definition lifetime :: "route list \<Rightarrow> string \<Rightarrow> listener set \<Rightarrow> event list \<Rightarrow> page" where
  "lifetime ROUTES p ls es = run ROUTES p es (initialPage ROUTES p ls)"

section \<open>The navigation renderer\<close>

definition getATarget :: "string \<Rightarrow> string option" where
  "getATarget r = (if r = ''https://github.com/styletron/styletron'' then Some ''_blank'' else None)"

text \<open>
  The rendered tree, one fragment per route: the route's item and, under it, the items of
  its anchors (none where the source renders \<^verbatim>\<open>false\<close>).
\<close>

record routeItem =
  itemActive :: bool
  linkHref :: string
  linkTarget :: "string option"
  linkActive :: bool
  linkText :: string

record anchorItem =
  anchorKey :: string
  anchorHref :: string
  anchorActive :: bool
  anchorText :: string

record fragment =
  fragmentKey :: string
  routeEntry :: routeItem
  anchorEntries :: "anchorItem list"

definition renderAnchor :: "jsval \<Rightarrow> string \<Rightarrow> anchorItem" where
  "renderAnchor act anchor =
     \<lparr> anchorKey = anchor,
       anchorHref = CHR ''#'' # cleanAnchor anchor,
       anchorActive = (act = Str anchor),
       anchorText = anchor \<rparr>"

definition renderRoute :: "int \<Rightarrow> jsval \<Rightarrow> route \<Rightarrow> int \<Rightarrow> error + fragment" where
  "renderRoute pathIndex act r index =
     (let item = \<lparr> itemActive = (pathIndex = index),
                    linkHref = path r,
                    linkTarget = getATarget (path r),
                    linkActive = (pathIndex = index),
                    linkText = label r \<rparr>
      in if pathIndex = index then
           (case anchors r of
              None \<Rightarrow> Inl TypeError
            | Some as \<Rightarrow>
                Inr \<lparr> fragmentKey = path r, routeEntry = item,
                      anchorEntries = map (renderAnchor act) as \<rparr>)
         else Inr \<lparr> fragmentKey = path r, routeEntry = item, anchorEntries = [] \<rparr>)"

text \<open>\<^verbatim>\<open>ROUTES.map((route, index) => ...)\<close>: the first throw ends the rendering.\<close>

fun mapRoutes :: "int \<Rightarrow> jsval \<Rightarrow> route list \<Rightarrow> int \<Rightarrow> error + fragment list" where
  "mapRoutes pathIndex act [] index = Inr []"
| "mapRoutes pathIndex act (r # rs) index =
     (case renderRoute pathIndex act r index of
        Inl e \<Rightarrow> Inl e
      | Inr f \<Rightarrow>
          (case mapRoutes pathIndex act rs (index + 1) of
             Inl e \<Rightarrow> Inl e
           | Inr fs \<Rightarrow> Inr (f # fs)))"

definition Navigation :: "route list \<Rightarrow> bool \<Rightarrow> int \<Rightarrow> jsval \<Rightarrow> error + fragment list" where
  "Navigation ROUTES isVisible pathIndex act = mapRoutes pathIndex act ROUTES 0"

text \<open>The sidebar as \<^verbatim>\<open>Layout.render\<close> draws it for a page.\<close>

definition renderSidebar :: "route list \<Rightarrow> string \<Rightarrow> page \<Rightarrow> error + fragment list" where
  "renderSidebar ROUTES p pg =
     Navigation ROUTES (sidebarVisible pg) (getPathIndex ROUTES p) (activeAnchor pg)"

section \<open>Notions of the specification\<close>

text \<open>
  An anchor has scrolled past the threshold when its element exists and the top of the
  element, less 26 pixels, is below zero.
\<close>

definition pastThreshold :: "dom \<Rightarrow> string \<Rightarrow> bool" where
  "pastThreshold d a = (case d (cleanAnchor a) of None \<Rightarrow> False | Some elTop \<Rightarrow> elTop - 26 < 0)"

definition present :: "dom \<Rightarrow> string \<Rightarrow> bool" where
  "present d a = (d (cleanAnchor a) \<noteq> None)"

text \<open>
  The anchor the specification calls active: the last one past the threshold, in list
  order, and the first of the list when there is none.
\<close>

definition lastPassed :: "dom \<Rightarrow> string list \<Rightarrow> jsval" where
  "lastPassed d as =
     (if filter (pastThreshold d) as = [] then firstAnchor as
      else Str (last (filter (pastThreshold d) as)))"

text \<open>"No anchor": the state holds no string.\<close>

fun noAnchor :: "jsval \<Rightarrow> bool" where
  "noAnchor (Str a) = False"
| "noAnchor v = True"

text \<open>
  The active-anchor state is well-formed for a page: no anchor, or one of the anchors of the
  route the current path matches.
\<close>

definition anchorOfPage :: "route list \<Rightarrow> string \<Rightarrow> jsval \<Rightarrow> bool" where
  "anchorOfPage ROUTES p v =
     (case v of
        Str a \<Rightarrow>
          (case List.find (pathMatches p) ROUTES of
             None \<Rightarrow> False
           | Some r \<Rightarrow> (case anchors r of None \<Rightarrow> False | Some as \<Rightarrow> a \<in> set as))
      | _ \<Rightarrow> True)"

text \<open>
  An already-lowercase hyphenated string: lowercase letters and digits, in words joined by
  single hyphens.
\<close>

fun noDoubleHyphen :: "string \<Rightarrow> bool" where
  "noDoubleHyphen [] = True"
| "noDoubleHyphen [c] = True"
| "noDoubleHyphen (c # d # cs) = (\<not> (c = CHR ''-'' \<and> d = CHR ''-'') \<and> noDoubleHyphen (d # cs))"

definition isSlugChar :: "char \<Rightarrow> bool" where
  "isSlugChar c = (isLower c \<or> isDigit c \<or> c = CHR ''-'')"

definition isSlug :: "string \<Rightarrow> bool" where
  "isSlug s = (list_all isSlugChar s \<and> noDoubleHyphen s \<and>
     (case s of [] \<Rightarrow> True | c # cs \<Rightarrow> c \<noteq> CHR ''-'' \<and> last s \<noteq> CHR ''-''))"

text \<open>What a rendering shows: the fragments, and how many items are marked active.\<close>

fun rendered :: "error + fragment list \<Rightarrow> fragment list" where
  "rendered (Inl e) = []"
| "rendered (Inr fs) = fs"

definition activeRouteCount :: "fragment list \<Rightarrow> nat" where
  "activeRouteCount fs = length (filter (\<lambda>f. itemActive (routeEntry f)) fs)"

definition activeAnchorCount :: "fragment list \<Rightarrow> nat" where
  "activeAnchorCount fs = length (filter anchorActive (concat (map anchorEntries fs)))"

section \<open>A small site\<close>

text \<open>
  A route table in the shape of the site's: a page without sections, a page with three
  sections, and the external link, which has no anchors.
\<close>

definition exampleRoutes :: "route list" where
  "exampleRoutes =
     [\<lparr> path = ''/'', label = ''Introduction'', anchors = Some [] \<rparr>,
      \<lparr> path = ''/react'', label = ''Use with React'', anchors = Some [''A'', ''B'', ''C''] \<rparr>,
      \<lparr> path = ''https://github.com/styletron/styletron'', label = ''GitHub'', anchors = None \<rparr>]"

text \<open>The sections A and B have scrolled past the threshold, C has not.\<close>

definition domAB :: dom where
  "domAB = map_of [(''a'', - 100), (''b'', 25.5), (''c'', 26)]"

text \<open>No section has scrolled past the threshold.\<close>

definition domTop :: dom where
  "domTop = map_of [(''a'', 80), (''b'', 400), (''c'', 900)]"

text \<open>The heading of section B is missing from the document.\<close>

definition domMissing :: dom where
  "domMissing = map_of [(''a'', - 100), (''c'', - 20)]"

section \<open>Facts about the primitives\<close>

lemma stripSeparators_filter: "stripSeparators s = filter (\<lambda>c. c \<noteq> CHR ''/'') s"
  unfolding stripSeparators_def by (induction s) auto

lemma findIndexFrom_range:
  "findIndexFrom P xs k = - 1 \<or> (k \<le> findIndexFrom P xs k \<and> findIndexFrom P xs k < k + int (length xs))"
proof (induction xs arbitrary: k)
  case Nil
  then show ?case by simp
next
  case (Cons x xs)
  from Cons.IH[of "k + 1"] show ?case by auto
qed

lemma findIndexFrom_none_iff: "0 \<le> k \<Longrightarrow> findIndexFrom P xs k = - 1 \<longleftrightarrow> (\<forall>x\<in>set xs. \<not> P x)"
  by (induction xs arbitrary: k) auto

lemma findIndexFrom_eq_iff:
  "0 \<le> k \<Longrightarrow>
   findIndexFrom P xs k = k + int i \<longleftrightarrow> i < length xs \<and> P (xs ! i) \<and> (\<forall>j<i. \<not> P (xs ! j))"
proof (induction xs arbitrary: k i)
  case Nil
  then show ?case by simp
next
  case (Cons x xs)
  show ?case
  proof (cases "P x")
    case True
    then show ?thesis by (cases i) auto
  next
    case False
    show ?thesis
    proof (cases i)
      case 0
      from findIndexFrom_range[of P xs "k + 1"] Cons.prems have "findIndexFrom P xs (k + 1) \<noteq> k"
        by auto
      with False 0 show ?thesis by simp
    next
      case (Suc n)
      from Cons.prems have k1: "0 \<le> k + 1" by simp
      have "findIndexFrom P (x # xs) k = k + int i \<longleftrightarrow> findIndexFrom P xs (k + 1) = (k + 1) + int n"
        using False Suc by (simp add: add.assoc)
      also have "\<dots> \<longleftrightarrow> n < length xs \<and> P (xs ! n) \<and> (\<forall>j<n. \<not> P (xs ! j))"
        by (rule Cons.IH[OF k1])
      also have "\<dots> \<longleftrightarrow> i < length (x # xs) \<and> P ((x # xs) ! i) \<and> (\<forall>j<i. \<not> P ((x # xs) ! j))"
        using False Suc by (auto simp: less_Suc_eq_0_disj)
      finally show ?thesis .
    qed
  qed
qed

lemma findIndex_none_iff: "findIndex P xs = - 1 \<longleftrightarrow> (\<forall>x\<in>set xs. \<not> P x)"
  by (simp add: findIndex_def findIndexFrom_none_iff)

lemma findIndex_eq_iff:
  "findIndex P xs = int i \<longleftrightarrow> i < length xs \<and> P (xs ! i) \<and> (\<forall>j<i. \<not> P (xs ! j))"
  using findIndexFrom_eq_iff[of 0 P xs i] by (simp add: findIndex_def)

lemma findIndex_range: "findIndex P xs = - 1 \<or> (0 \<le> findIndex P xs \<and> findIndex P xs < int (length xs))"
  using findIndexFrom_range[of P xs 0] by (simp add: findIndex_def)

lemma jsIndex_findIndex_Some_iff:
  "jsIndex xs (findIndex P xs) = Some r \<longleftrightarrow>
     (\<exists>i. i < length xs \<and> xs ! i = r \<and> P r \<and> (\<forall>j<i. \<not> P (xs ! j)))"
proof -
  consider "findIndex P xs = - 1" | n where "findIndex P xs = int n"
    using findIndex_range[of P xs] by (metis nonneg_int_cases)
  then show ?thesis
  proof cases
    case 1
    then have "\<forall>x\<in>set xs. \<not> P x" by (simp add: findIndex_none_iff)
    then show ?thesis using 1 by (auto simp: jsIndex_def)
  next
    case 2
    then have h: "n < length xs \<and> P (xs ! n) \<and> (\<forall>j<n. \<not> P (xs ! j))" by (simp add: findIndex_eq_iff)
    have u: "\<And>i. i < length xs \<and> P (xs ! i) \<and> (\<forall>j<i. \<not> P (xs ! j)) \<Longrightarrow> i = n"
      using h by (meson linorder_neqE_nat)
    have js: "jsIndex xs (findIndex P xs) = Some (xs ! n)" using 2 h by (simp add: jsIndex_def)
    show ?thesis
    proof
      assume "jsIndex xs (findIndex P xs) = Some r"
      with js have "r = xs ! n" by simp
      with h show "\<exists>i. i < length xs \<and> xs ! i = r \<and> P r \<and> (\<forall>j<i. \<not> P (xs ! j))" by blast
    next
      assume "\<exists>i. i < length xs \<and> xs ! i = r \<and> P r \<and> (\<forall>j<i. \<not> P (xs ! j))"
      then obtain i where i: "i < length xs \<and> P (xs ! i) \<and> (\<forall>j<i. \<not> P (xs ! j))" and r: "xs ! i = r" by blast
      from u[OF i] r js show "jsIndex xs (findIndex P xs) = Some r" by simp
    qed
  qed
qed

lemma jsIndex_findIndex_find: "jsIndex xs (findIndex P xs) = List.find P xs"
proof (cases "List.find P xs")
  case None
  then have "\<forall>x\<in>set xs. \<not> P x" by (simp add: find_None_iff)
  then have "findIndex P xs = - 1" by (simp add: findIndex_none_iff)
  then show ?thesis using None by (simp add: jsIndex_def)
next
  case (Some r)
  then obtain i where "i < length xs" "P (xs ! i)" "r = xs ! i" "\<forall>j<i. \<not> P (xs ! j)"
    by (auto simp: find_Some_iff)
  then have "jsIndex xs (findIndex P xs) = Some r"
    unfolding jsIndex_findIndex_Some_iff by blast
  then show ?thesis using Some by simp
qed

lemma currentRoute_find: "currentRoute ROUTES p = List.find (pathMatches p) ROUTES"
  by (simp add: currentRoute_def getPathIndex_def jsIndex_findIndex_find)

section \<open>Facts about the scroll recomputation\<close>

lemma forEachAnchor_present:
  "\<forall>a\<in>set as. present d a \<Longrightarrow>
   forEachAnchor d as act tr =
     (None,
      (if filter (pastThreshold d) as = [] then act else Str (last (filter (pastThreshold d) as))),
      tr @ map cleanAnchor as)"
proof (induction as arbitrary: act tr)
  case Nil
  then show ?case by simp
next
  case (Cons a as)
  from Cons.prems obtain t where t: "d (cleanAnchor a) = Some t"
    by (auto simp: present_def)
  from Cons.prems have rest: "\<forall>a\<in>set as. present d a" by simp
  have pa: "pastThreshold d a = (t - 26 < 0)" using t by (simp add: pastThreshold_def)
  have step: "forEachAnchor d (a # as) act tr =
      forEachAnchor d as (if t - 26 < 0 then Str a else act) (tr @ [cleanAnchor a])"
    using t by simp
  show ?case
    unfolding step Cons.IH[OF rest] using pa by simp
qed

lemma forEachAnchor_missing:
  "\<exists>a\<in>set as. \<not> present d a \<Longrightarrow>
   \<exists>act'. forEachAnchor d as act tr =
     (Some TypeError, act',
      tr @ map cleanAnchor (takeWhile (present d) as) @ [cleanAnchor (hd (dropWhile (present d) as))])"
proof (induction as arbitrary: act tr)
  case Nil
  then show ?case by simp
next
  case (Cons a as)
  show ?case
  proof (cases "d (cleanAnchor a)")
    case None
    then show ?thesis by (simp add: present_def)
  next
    case (Some t)
    then have pa: "present d a" by (simp add: present_def)
    with Cons.prems have "\<exists>a\<in>set as. \<not> present d a" by simp
    from Cons.IH[OF this, of "if t - 26 < 0 then Str a else act" "tr @ [cleanAnchor a]"]
    obtain act' where "forEachAnchor d as (if t - 26 < 0 then Str a else act) (tr @ [cleanAnchor a]) =
        (Some TypeError, act',
         (tr @ [cleanAnchor a]) @ map cleanAnchor (takeWhile (present d) as)
           @ [cleanAnchor (hd (dropWhile (present d) as))])"
      by blast
    moreover have "forEachAnchor d (a # as) act tr =
        forEachAnchor d as (if t - 26 < 0 then Str a else act) (tr @ [cleanAnchor a])"
      using Some by simp
    ultimately have "forEachAnchor d (a # as) act tr =
        (Some TypeError, act',
         tr @ map cleanAnchor (takeWhile (present d) (a # as))
           @ [cleanAnchor (hd (dropWhile (present d) (a # as)))])"
      using pa by simp
    then show ?thesis by blast
  qed
qed

lemma onScroll_present:
  assumes "List.find (pathMatches p) ROUTES = Some r" and "anchors r = Some as"
    and "\<forall>a\<in>set as. present d a"
  shows "onScroll ROUTES p d pg =
           Normal (pg\<lparr>activeAnchor := lastPassed d as, lookups := lookups pg @ map cleanAnchor as\<rparr>)"
  using assms(1,2) forEachAnchor_present[OF assms(3)]
  by (simp add: onScroll_def currentRoute_find lastPassed_def)

lemma onScroll_missing:
  assumes "List.find (pathMatches p) ROUTES = Some r" and "anchors r = Some as"
    and "\<exists>a\<in>set as. \<not> present d a"
  shows "onScroll ROUTES p d pg =
           Thrown TypeError
             (pg\<lparr>lookups := lookups pg @ map cleanAnchor (takeWhile (present d) as)
                     @ [cleanAnchor (hd (dropWhile (present d) as))]\<rparr>)"
proof -
  from forEachAnchor_missing[OF assms(3)] obtain act' where
    "forEachAnchor d as (firstAnchor as) (lookups pg) =
       (Some TypeError, act',
        lookups pg @ map cleanAnchor (takeWhile (present d) as)
          @ [cleanAnchor (hd (dropWhile (present d) as))])"
    by blast
  then show ?thesis using assms(1,2) by (simp add: onScroll_def currentRoute_find)
qed

lemma onScroll_no_route:
  "List.find (pathMatches p) ROUTES = None \<Longrightarrow> onScroll ROUTES p d pg = Thrown TypeError pg"
  by (simp add: onScroll_def currentRoute_find)

lemma onScroll_no_anchors:
  "List.find (pathMatches p) ROUTES = Some r \<Longrightarrow> anchors r = None \<Longrightarrow>
   onScroll ROUTES p d pg = Thrown TypeError pg"
  by (simp add: onScroll_def currentRoute_find)

lemma lastPassed_nonempty:
  "as \<noteq> [] \<Longrightarrow> lastPassed d as =
     Str (if filter (pastThreshold d) as = [] then hd as else last (filter (pastThreshold d) as))"
  by (cases as) (simp_all add: lastPassed_def)

section \<open>Facts about the page view\<close>

lemma run_invariant:
  assumes step: "\<And>e pg. I pg \<Longrightarrow> I (handle ROUTES p e pg)" and init: "I pg"
  shows "I (run ROUTES p es pg)"
  using init
proof (induction es arbitrary: pg)
  case Nil
  then show ?case by simp
next
  case (Cons e es)
  from Cons.prems have "I (handle ROUTES p e pg)" by (rule step)
  then have "I (run ROUTES p es (handle ROUTES p e pg))" by (rule Cons.IH)
  then show ?case by simp
qed

lemma componentDidMount_anchors:
  "List.find (pathMatches p) ROUTES = Some r \<Longrightarrow> anchors r = Some as \<Longrightarrow>
   componentDidMount ROUTES p d pg =
     onScroll ROUTES p d (pg\<lparr>scrollListeners := insert DebouncedOnScroll (scrollListeners pg)\<rparr>)"
  by (simp add: componentDidMount_def currentRoute_find)

lemma componentDidMount_no_anchors:
  "List.find (pathMatches p) ROUTES = Some r \<Longrightarrow> anchors r = None \<Longrightarrow>
   componentDidMount ROUTES p d pg = Normal pg"
  by (simp add: componentDidMount_def currentRoute_find)

lemma componentDidMount_no_route:
  "List.find (pathMatches p) ROUTES = None \<Longrightarrow> componentDidMount ROUTES p d pg = Thrown TypeError pg"
  by (simp add: componentDidMount_def currentRoute_find)

lemma onScroll_frame:
  "sidebarVisible (pageOf (onScroll ROUTES p d pg)) = sidebarVisible pg
   \<and> scrollListeners (pageOf (onScroll ROUTES p d pg)) = scrollListeners pg"
proof (cases "List.find (pathMatches p) ROUTES")
  case None
  then show ?thesis by (simp add: onScroll_no_route)
next
  case (Some r)
  note r = this
  show ?thesis
  proof (cases "anchors r")
    case None
    with r show ?thesis by (simp add: onScroll_no_anchors)
  next
    case (Some as)
    show ?thesis
    proof (cases "\<forall>a\<in>set as. present d a")
      case True
      then show ?thesis by (simp add: onScroll_present[OF r Some True])
    next
      case False
      then have m: "\<exists>a\<in>set as. \<not> present d a" by simp
      show ?thesis by (simp add: onScroll_missing[OF r Some m])
    qed
  qed
qed

lemma lastPassed_cases:
  "lastPassed d as = Undefined \<and> as = [] \<or> (\<exists>a\<in>set as. lastPassed d as = Str a)"
proof (cases "filter (pastThreshold d) as = []")
  case True
  then show ?thesis by (cases as) (simp_all add: lastPassed_def)
next
  case False
  then have "last (filter (pastThreshold d) as) \<in> set (filter (pastThreshold d) as)"
    by (rule last_in_set)
  then have "last (filter (pastThreshold d) as) \<in> set as" by simp
  with False show ?thesis by (simp add: lastPassed_def)
qed

lemma onScroll_anchorOfPage:
  assumes "anchorOfPage ROUTES p (activeAnchor pg)"
  shows "anchorOfPage ROUTES p (activeAnchor (pageOf (onScroll ROUTES p d pg)))"
proof (cases "List.find (pathMatches p) ROUTES")
  case None
  then show ?thesis using assms by (simp add: onScroll_no_route)
next
  case (Some r)
  note r = this
  show ?thesis
  proof (cases "anchors r")
    case None
    with r show ?thesis using assms by (simp add: onScroll_no_anchors)
  next
    case (Some as)
    show ?thesis
    proof (cases "\<forall>a\<in>set as. present d a")
      case True
      have "anchorOfPage ROUTES p (lastPassed d as)"
        using lastPassed_cases[of d as] r Some by (auto simp: anchorOfPage_def)
      then show ?thesis by (simp add: onScroll_present[OF r Some True])
    next
      case False
      then have m: "\<exists>a\<in>set as. \<not> present d a" by simp
      show ?thesis using assms by (simp add: onScroll_missing[OF r Some m])
    qed
  qed
qed

lemma componentDidMount_anchorOfPage:
  assumes "anchorOfPage ROUTES p (activeAnchor pg)"
  shows "anchorOfPage ROUTES p (activeAnchor (pageOf (componentDidMount ROUTES p d pg)))"
proof (cases "List.find (pathMatches p) ROUTES")
  case None
  then show ?thesis using assms by (simp add: componentDidMount_no_route)
next
  case (Some r)
  note r = this
  show ?thesis
  proof (cases "anchors r")
    case None
    with r show ?thesis using assms by (simp add: componentDidMount_no_anchors)
  next
    case (Some as)
    have "anchorOfPage ROUTES p
            (activeAnchor (pg\<lparr>scrollListeners := insert DebouncedOnScroll (scrollListeners pg)\<rparr>))"
      using assms by simp
    from onScroll_anchorOfPage[OF this] show ?thesis
      by (simp add: componentDidMount_anchors[OF r Some])
  qed
qed

lemma handle_anchorOfPage:
  assumes "anchorOfPage ROUTES p (activeAnchor pg)"
  shows "anchorOfPage ROUTES p (activeAnchor (handle ROUTES p e pg))"
proof (cases e)
  case (Mount d)
  then show ?thesis using componentDidMount_anchorOfPage[OF assms] by simp
next
  case (Scroll d)
  then show ?thesis using onScroll_anchorOfPage[OF assms] assms by simp
next
  case Toggle
  then show ?thesis using assms by (simp add: toggleSidebar_def)
next
  case Unmount
  then show ?thesis using assms by (simp add: componentWillUnmount_def)
qed

lemma initialPage_anchorOfPage: "anchorOfPage ROUTES p (activeAnchor (initialPage ROUTES p ls))"
proof (cases "List.find (pathMatches p) ROUTES")
  case None
  then show ?thesis by (simp add: initialPage_def currentRoute_find anchorOfPage_def)
next
  case (Some r)
  show ?thesis
  proof (cases "anchors r")
    case None
    with Some show ?thesis by (simp add: initialPage_def currentRoute_find anchorOfPage_def)
  next
    case (Some as)
    with \<open>List.find (pathMatches p) ROUTES = Some r\<close> show ?thesis
      by (cases as) (simp_all add: initialPage_def currentRoute_find anchorOfPage_def)
  qed
qed

lemma lifetime_anchorOfPage: "anchorOfPage ROUTES p (activeAnchor (lifetime ROUTES p ls es))"
  unfolding lifetime_def
  by (rule run_invariant[where I = "\<lambda>pg. anchorOfPage ROUTES p (activeAnchor pg)"])
     (simp_all add: handle_anchorOfPage initialPage_anchorOfPage)

lemma empty_anchors_inert:
  assumes r: "List.find (pathMatches p) ROUTES = Some r" and e: "anchors r = Some []"
  shows "lookups (lifetime ROUTES p ls es) = [] \<and> activeAnchor (lifetime ROUTES p ls es) = Undefined"
proof -
  let ?I = "\<lambda>pg::page. lookups pg = [] \<and> activeAnchor pg = Undefined"
  have all: "\<And>d. \<forall>a\<in>set []. present d a" by simp
  have sc: "\<And>d pg. ?I pg \<Longrightarrow> ?I (pageOf (onScroll ROUTES p d pg))"
    by (simp add: onScroll_present[OF r e all] lastPassed_def)
  have step: "\<And>ev pg. ?I pg \<Longrightarrow> ?I (handle ROUTES p ev pg)"
  proof -
    fix ev pg assume i: "?I pg"
    show "?I (handle ROUTES p ev pg)"
    proof (cases ev)
      case (Mount d)
      have "?I (pg\<lparr>scrollListeners := insert DebouncedOnScroll (scrollListeners pg)\<rparr>)"
        using i by simp
      from sc[OF this] show ?thesis using Mount by (simp add: componentDidMount_anchors[OF r e])
    next
      case (Scroll d)
      then show ?thesis using sc[OF i] i by simp
    next
      case Toggle
      then show ?thesis using i by (simp add: toggleSidebar_def)
    next
      case Unmount
      then show ?thesis using i by (simp add: componentWillUnmount_def)
    qed
  qed
  have init: "?I (initialPage ROUTES p ls)"
    using r e by (simp add: initialPage_def currentRoute_find)
  show ?thesis unfolding lifetime_def
    by (rule run_invariant[where I = ?I, OF step init])
qed

lemma absent_anchors_inert:
  assumes r: "List.find (pathMatches p) ROUTES = Some r" and e: "anchors r = None"
    and n: "DebouncedOnScroll \<notin> ls"
  shows "lookups (lifetime ROUTES p ls es) = [] \<and> activeAnchor (lifetime ROUTES p ls es) = Null
         \<and> DebouncedOnScroll \<notin> scrollListeners (lifetime ROUTES p ls es)"
proof -
  let ?I = "\<lambda>pg::page. lookups pg = [] \<and> activeAnchor pg = Null \<and> DebouncedOnScroll \<notin> scrollListeners pg"
  have step: "\<And>ev pg. ?I pg \<Longrightarrow> ?I (handle ROUTES p ev pg)"
  proof -
    fix ev pg assume i: "?I pg"
    show "?I (handle ROUTES p ev pg)"
    proof (cases ev)
      case (Mount d)
      then show ?thesis using i by (simp add: componentDidMount_no_anchors[OF r e])
    next
      case (Scroll d)
      then show ?thesis using i by simp
    next
      case Toggle
      then show ?thesis using i by (simp add: toggleSidebar_def)
    next
      case Unmount
      then show ?thesis using i by (simp add: componentWillUnmount_def)
    qed
  qed
  have init: "?I (initialPage ROUTES p ls)"
    using r e n by (simp add: initialPage_def currentRoute_find)
  show ?thesis unfolding lifetime_def
    by (rule run_invariant[where I = ?I, OF step init])
qed

section \<open>Facts about the navigation renderer\<close>

lemma filter_single:
  "i < length xs \<Longrightarrow> \<forall>j<length xs. P (xs ! j) = (j = i) \<Longrightarrow> filter P xs = [xs ! i]"
proof (induction xs arbitrary: i)
  case Nil
  then show ?case by simp
next
  case (Cons x xs)
  show ?case
  proof (cases i)
    case 0
    from Cons.prems(2) 0 have px: "P x" by auto
    have "\<forall>y\<in>set xs. \<not> P y"
    proof
      fix y assume "y \<in> set xs"
      then obtain k where k: "k < length xs" "xs ! k = y" by (auto simp: in_set_conv_nth)
      from Cons.prems(2) k(1) 0 have "P ((x # xs) ! Suc k) = (Suc k = 0)" by auto
      with k show "\<not> P y" by simp
    qed
    then have "filter P xs = []" by (simp add: filter_empty_conv)
    with px 0 show ?thesis by simp
  next
    case (Suc n)
    from Cons.prems(2) Suc have npx: "\<not> P x" by auto
    from Cons.prems(1) Suc have n: "n < length xs" by simp
    have "\<forall>j<length xs. P (xs ! j) = (j = n)"
    proof (intro allI impI)
      fix j assume "j < length xs"
      with Cons.prems(2) have "P ((x # xs) ! Suc j) = (Suc j = i)" by auto
      with Suc show "P (xs ! j) = (j = n)" by simp
    qed
    from Cons.IH[OF n this] npx Suc show ?thesis by simp
  qed
qed

lemma concat_single:
  "i < length xss \<Longrightarrow> \<forall>j<length xss. j \<noteq> i \<longrightarrow> xss ! j = [] \<Longrightarrow> concat xss = xss ! i"
proof (induction xss arbitrary: i)
  case Nil
  then show ?case by simp
next
  case (Cons xs xss)
  show ?case
  proof (cases i)
    case 0
    have "\<forall>ys\<in>set xss. ys = []"
    proof
      fix ys assume "ys \<in> set xss"
      then obtain k where k: "k < length xss" "xss ! k = ys" by (auto simp: in_set_conv_nth)
      from Cons.prems(2) k(1) 0 have "(xs # xss) ! Suc k = []" by auto
      with k show "ys = []" by simp
    qed
    then have "concat xss = []" by simp
    with 0 show ?thesis by simp
  next
    case (Suc n)
    from Cons.prems(2) Suc have e: "xs = []" by auto
    from Cons.prems(1) Suc have n: "n < length xss" by simp
    have "\<forall>j<length xss. j \<noteq> n \<longrightarrow> xss ! j = []"
    proof (intro allI impI)
      fix j assume "j < length xss" "j \<noteq> n"
      with Cons.prems(2) Suc have "(xs # xss) ! Suc j = []" by auto
      then show "xss ! j = []" by simp
    qed
    from Cons.IH[OF n this] e Suc show ?thesis by simp
  qed
qed

lemma renderRoute_Inr_ex:
  "pathIndex = index \<longrightarrow> anchors r \<noteq> None \<Longrightarrow> \<exists>f. renderRoute pathIndex act r index = Inr f"
  by (cases "anchors r") (simp_all add: renderRoute_def Let_def)

lemma mapRoutes_Inr:
  assumes "\<forall>k<length rs. pathIndex = index + int k \<longrightarrow> anchors (rs ! k) \<noteq> None"
  shows "\<exists>fs. mapRoutes pathIndex act rs index = Inr fs \<and> length fs = length rs
           \<and> (\<forall>k<length rs. renderRoute pathIndex act (rs ! k) (index + int k) = Inr (fs ! k))"
  using assms
proof (induction rs arbitrary: index)
  case Nil
  then show ?case by simp
next
  case (Cons r rs)
  from Cons.prems have h0: "pathIndex = index \<longrightarrow> anchors r \<noteq> None" by auto
  from renderRoute_Inr_ex[OF this] obtain f where f: "renderRoute pathIndex act r index = Inr f"
    by blast
  have "\<forall>k<length rs. pathIndex = (index + 1) + int k \<longrightarrow> anchors (rs ! k) \<noteq> None"
  proof (intro allI impI)
    fix k assume k: "k < length rs" and e: "pathIndex = (index + 1) + int k"
    from Cons.prems k have "pathIndex = index + int (Suc k) \<longrightarrow> anchors ((r # rs) ! Suc k) \<noteq> None"
      by (metis Suc_less_eq length_Cons)
    with e show "anchors (rs ! k) \<noteq> None" by simp
  qed
  from Cons.IH[OF this] obtain fs where fs: "mapRoutes pathIndex act rs (index + 1) = Inr fs"
    "length fs = length rs"
    "\<forall>k<length rs. renderRoute pathIndex act (rs ! k) ((index + 1) + int k) = Inr (fs ! k)"
    by blast
  have m: "mapRoutes pathIndex act (r # rs) index = Inr (f # fs)" using f fs(1) by simp
  have "\<forall>k<length (r # rs). renderRoute pathIndex act ((r # rs) ! k) (index + int k) = Inr ((f # fs) ! k)"
  proof (intro allI impI)
    fix k assume k: "k < length (r # rs)"
    show "renderRoute pathIndex act ((r # rs) ! k) (index + int k) = Inr ((f # fs) ! k)"
    proof (cases k)
      case 0
      then show ?thesis using f by simp
    next
      case (Suc n)
      with k have "n < length rs" by simp
      with fs(3) have "renderRoute pathIndex act (rs ! n) ((index + 1) + int n) = Inr (fs ! n)" by blast
      then show ?thesis using Suc by (simp add: add.assoc)
    qed
  qed
  with m fs(2) show ?case by simp
qed

lemma renderRoute_Inr_active:
  "renderRoute pathIndex act r index = Inr f \<Longrightarrow>
   itemActive (routeEntry f) = (pathIndex = index) \<and> linkActive (routeEntry f) = (pathIndex = index)
   \<and> linkHref (routeEntry f) = path r \<and> linkText (routeEntry f) = label r
   \<and> linkTarget (routeEntry f) = getATarget (path r) \<and> fragmentKey f = path r"
  by (auto simp: renderRoute_def Let_def split: if_splits option.splits)

lemma renderRoute_Inr_other:
  "renderRoute pathIndex act r index = Inr f \<Longrightarrow> pathIndex \<noteq> index \<Longrightarrow> anchorEntries f = []"
  by (auto simp: renderRoute_def Let_def split: if_splits option.splits)

lemma renderRoute_Inr_current:
  "renderRoute pathIndex act r index = Inr f \<Longrightarrow> pathIndex = index \<Longrightarrow> anchors r = Some as \<Longrightarrow>
   anchorEntries f = map (renderAnchor act) as"
  by (auto simp: renderRoute_def Let_def split: if_splits option.splits)

lemma anchorActive_renderAnchor: "anchorActive (renderAnchor act a) = (act = Str a)"
  by (simp add: renderAnchor_def)

lemma filter_renderAnchor:
  "filter anchorActive (map (renderAnchor act) as) = map (renderAnchor act) (filter (\<lambda>a. act = Str a) as)"
  by (simp add: filter_map o_def anchorActive_renderAnchor)

lemma count_member_distinct:
  "distinct as \<Longrightarrow> a \<in> set as \<Longrightarrow> length (filter (\<lambda>x. Str a = Str x) as) = 1"
  by (induction as) (auto simp: filter_empty_conv)

lemma count_noAnchor: "noAnchor v \<Longrightarrow> length (filter (\<lambda>x. v = Str x) as) = 0"
  by (cases v) simp_all

lemma Navigation_current:
  assumes i: "i < length ROUTES" and as: "anchors (ROUTES ! i) = Some as"
  shows "\<exists>fs. Navigation ROUTES vis (int i) act = Inr fs \<and> length fs = length ROUTES
     \<and> (\<forall>j<length ROUTES. itemActive (routeEntry (fs ! j)) = (j = i)
           \<and> linkActive (routeEntry (fs ! j)) = (j = i)
           \<and> linkHref (routeEntry (fs ! j)) = path (ROUTES ! j)
           \<and> linkText (routeEntry (fs ! j)) = label (ROUTES ! j))
     \<and> (\<forall>j<length ROUTES. j \<noteq> i \<longrightarrow> anchorEntries (fs ! j) = [])
     \<and> anchorEntries (fs ! i) = map (renderAnchor act) as
     \<and> activeRouteCount fs = 1
     \<and> activeAnchorCount fs = length (filter (\<lambda>a. act = Str a) as)"
proof -
  have "\<forall>k<length ROUTES. int i = 0 + int k \<longrightarrow> anchors (ROUTES ! k) \<noteq> None"
    using as by auto
  from mapRoutes_Inr[OF this, of act] obtain fs where
    fs: "mapRoutes (int i) act ROUTES 0 = Inr fs" "length fs = length ROUTES"
      "\<forall>k<length ROUTES. renderRoute (int i) act (ROUTES ! k) (0 + int k) = Inr (fs ! k)"
    by blast
  have rr: "\<And>j. j < length ROUTES \<Longrightarrow> renderRoute (int i) act (ROUTES ! j) (int j) = Inr (fs ! j)"
    using fs(3) by simp
  have items: "\<forall>j<length ROUTES. itemActive (routeEntry (fs ! j)) = (j = i)
           \<and> linkActive (routeEntry (fs ! j)) = (j = i)
           \<and> linkHref (routeEntry (fs ! j)) = path (ROUTES ! j)
           \<and> linkText (routeEntry (fs ! j)) = label (ROUTES ! j)"
  proof (intro allI impI)
    fix j assume "j < length ROUTES"
    from renderRoute_Inr_active[OF rr[OF this]]
    show "itemActive (routeEntry (fs ! j)) = (j = i)
           \<and> linkActive (routeEntry (fs ! j)) = (j = i)
           \<and> linkHref (routeEntry (fs ! j)) = path (ROUTES ! j)
           \<and> linkText (routeEntry (fs ! j)) = label (ROUTES ! j)"
      by auto
  qed
  have others: "\<forall>j<length ROUTES. j \<noteq> i \<longrightarrow> anchorEntries (fs ! j) = []"
  proof (intro allI impI)
    fix j assume j: "j < length ROUTES" "j \<noteq> i"
    then have "int i \<noteq> int j" by simp
    from renderRoute_Inr_other[OF rr[OF j(1)] this] show "anchorEntries (fs ! j) = []" .
  qed
  have cur: "anchorEntries (fs ! i) = map (renderAnchor act) as"
    using renderRoute_Inr_current[OF rr[OF i] refl as] .
  have "\<forall>j<length fs. itemActive (routeEntry (fs ! j)) = (j = i)" using items fs(2) by simp
  from filter_single[of i fs "\<lambda>f. itemActive (routeEntry f)", OF _ this] i fs(2)
  have rc: "activeRouteCount fs = 1" by (simp add: activeRouteCount_def)
  have "\<forall>j<length (map anchorEntries fs). j \<noteq> i \<longrightarrow> map anchorEntries fs ! j = []"
    using others fs(2) by simp
  from concat_single[of i "map anchorEntries fs", OF _ this] i fs(2)
  have "concat (map anchorEntries fs) = anchorEntries (fs ! i)" by simp
  then have ac: "activeAnchorCount fs = length (filter (\<lambda>a. act = Str a) as)"
    by (simp add: activeAnchorCount_def cur filter_renderAnchor)
  from fs(1,2) items others cur rc ac show ?thesis by (simp add: Navigation_def)
qed

lemma Navigation_no_match:
  "\<exists>fs. Navigation ROUTES vis (- 1) act = Inr fs \<and> length fs = length ROUTES
     \<and> (\<forall>j<length ROUTES. \<not> itemActive (routeEntry (fs ! j)) \<and> anchorEntries (fs ! j) = [])"
proof -
  have "\<forall>k<length ROUTES. (- 1 :: int) = 0 + int k \<longrightarrow> anchors (ROUTES ! k) \<noteq> None" by auto
  from mapRoutes_Inr[OF this, of act] obtain fs where
    fs: "mapRoutes (- 1) act ROUTES 0 = Inr fs" "length fs = length ROUTES"
      "\<forall>k<length ROUTES. renderRoute (- 1) act (ROUTES ! k) (0 + int k) = Inr (fs ! k)"
    by blast
  have "\<forall>j<length ROUTES. \<not> itemActive (routeEntry (fs ! j)) \<and> anchorEntries (fs ! j) = []"
  proof (intro allI impI)
    fix j assume "j < length ROUTES"
    with fs(3) have r: "renderRoute (- 1) act (ROUTES ! j) (int j) = Inr (fs ! j)" by simp
    have ne: "(- 1 :: int) \<noteq> int j" by simp
    from renderRoute_Inr_active[OF r] renderRoute_Inr_other[OF r ne]
    show "\<not> itemActive (routeEntry (fs ! j)) \<and> anchorEntries (fs ! j) = []" by simp
  qed
  with fs(1,2) show ?thesis by (simp add: Navigation_def)
qed

section \<open>Facts about the identifier transform\<close>

lemma hyphen_not_alnum: "\<not> isAlnum (CHR ''-'')"
  by (simp add: isAlnum_def isUpper_def isLower_def isDigit_def)

lemma isAlnum_not_hyphen: "isAlnum c \<Longrightarrow> c \<noteq> CHR ''-''"
  using hyphen_not_alnum by blast

lemma toLower_not_upper: "\<not> isUpper (toLower c)"
  by (simp add: toLower_def isUpper_def)

lemma isAlnum_toLower: "isAlnum (toLower c) \<Longrightarrow> isSlugChar (toLower c)"
  using toLower_not_upper[of c] by (auto simp: isAlnum_def isSlugChar_def)

lemma isSlugChar_not_upper: "isSlugChar c \<Longrightarrow> \<not> isUpper c"
proof -
  assume "isSlugChar c"
  then consider "isLower c" | "isDigit c" | "c = CHR ''-''" by (auto simp: isSlugChar_def)
  then show ?thesis
  proof cases
    case 1
    then show ?thesis by (simp add: isLower_def isUpper_def)
  next
    case 2
    then show ?thesis by (simp add: isDigit_def isUpper_def)
  next
    case 3
    then show ?thesis using hyphen_not_alnum by (simp add: isAlnum_def)
  qed
qed

lemma isSlugChar_toLower: "isSlugChar c \<Longrightarrow> toLower c = c"
  by (simp add: toLower_def isSlugChar_not_upper)

lemma isSlugChar_alnum: "isSlugChar c \<Longrightarrow> c \<noteq> CHR ''-'' \<Longrightarrow> isAlnum c"
  by (auto simp: isSlugChar_def isAlnum_def)

lemma set_collapse: "x \<in> set (collapse s) \<Longrightarrow> x = CHR ''-'' \<or> (x \<in> set s \<and> isAlnum x)"
proof (induction s rule: collapse.induct)
  case 1
  then show ?case by simp
next
  case (2 c)
  then show ?case by (cases "isAlnum c") simp_all
next
  case (3 c d cs)
  show ?case
  proof (cases "isAlnum c")
    case True
    with 3(4) have "x = c \<or> x \<in> set (collapse (d # cs))" by simp
    then show ?thesis
    proof
      assume "x = c"
      with True show ?thesis by simp
    next
      assume "x \<in> set (collapse (d # cs))"
      from 3(1)[OF True this] show ?thesis by auto
    qed
  next
    case False
    show ?thesis
    proof (cases "isAlnum d")
      case True
      with False 3(4) have "x = CHR ''-'' \<or> x \<in> set (collapse (d # cs))" by simp
      then show ?thesis
      proof
        assume "x = CHR ''-''"
        then show ?thesis by simp
      next
        assume "x \<in> set (collapse (d # cs))"
        from 3(2)[OF False True this] show ?thesis by auto
      qed
    next
      case d: False
      with False 3(4) have "x \<in> set (collapse (d # cs))" by simp
      from 3(3)[OF False d this] show ?thesis by auto
    qed
  qed
qed

lemma collapse_slug_chars:
  assumes "\<forall>c\<in>set s. isAlnum c \<longrightarrow> isSlugChar c"
  shows "\<forall>c\<in>set (collapse s). isSlugChar c"
proof
  fix c assume "c \<in> set (collapse s)"
  from set_collapse[OF this] show "isSlugChar c"
  proof
    assume "c = CHR ''-''"
    then show ?thesis by (simp add: isSlugChar_def)
  next
    assume "c \<in> set s \<and> isAlnum c"
    with assms show ?thesis by blast
  qed
qed

lemma collapse_alnum_head: "isAlnum d \<Longrightarrow> \<exists>rest. collapse (d # cs) = d # rest"
  by (cases cs) simp_all

lemma noDoubleHyphen_Cons: "c \<noteq> CHR ''-'' \<Longrightarrow> noDoubleHyphen (c # xs) = noDoubleHyphen xs"
  by (cases xs) simp_all

lemma noDoubleHyphen_tail: "noDoubleHyphen (c # xs) \<Longrightarrow> noDoubleHyphen xs"
  by (cases xs) simp_all

lemma noDoubleHyphen_collapse: "noDoubleHyphen (collapse s)"
proof (induction s rule: collapse.induct)
  case 1
  then show ?case by simp
next
  case (2 c)
  then show ?case by simp
next
  case (3 c d cs)
  show ?case
  proof (cases "isAlnum c")
    case True
    then show ?thesis using 3 by (simp add: noDoubleHyphen_Cons isAlnum_not_hyphen)
  next
    case False
    show ?thesis
    proof (cases "isAlnum d")
      case True
      from collapse_alnum_head[OF True, of cs] obtain rest where r: "collapse (d # cs) = d # rest" by blast
      from 3(2)[OF False True] r have "noDoubleHyphen (d # rest)" by simp
      then show ?thesis using False True r by (simp add: isAlnum_not_hyphen)
    next
      case d: False
      then show ?thesis using False 3 by simp
    qed
  qed
qed

lemma noDoubleHyphen_dropWhile: "noDoubleHyphen s \<Longrightarrow> noDoubleHyphen (dropWhile P s)"
proof (induction s)
  case Nil
  then show ?case by simp
next
  case (Cons c cs)
  from Cons.prems have "noDoubleHyphen cs" by (rule noDoubleHyphen_tail)
  then have "noDoubleHyphen (dropWhile P cs)" by (rule Cons.IH)
  with Cons.prems show ?case by (cases "P c") simp_all
qed

lemma stripTrailing_Cons:
  "stripTrailing (c # cs) = [] \<and> c = CHR ''-'' \<and> stripTrailing cs = []
   \<or> stripTrailing (c # cs) = c # stripTrailing cs"
  by simp

lemma stripTrailing_hd: "stripTrailing s = d # ds \<Longrightarrow> \<exists>rest. s = d # rest"
proof (cases s)
  case Nil
  assume "stripTrailing s = d # ds"
  with Nil show ?thesis by simp
next
  case (Cons c cs)
  assume h: "stripTrailing s = d # ds"
  from stripTrailing_Cons[of c cs] h Cons have "c = d" by auto
  with Cons show ?thesis by simp
qed

lemma noDoubleHyphen_stripTrailing: "noDoubleHyphen s \<Longrightarrow> noDoubleHyphen (stripTrailing s)"
proof (induction s)
  case Nil
  then show ?case by simp
next
  case (Cons c cs)
  from Cons.prems have "noDoubleHyphen cs" by (rule noDoubleHyphen_tail)
  then have ih: "noDoubleHyphen (stripTrailing cs)" by (rule Cons.IH)
  from stripTrailing_Cons[of c cs] show ?case
  proof
    assume "stripTrailing (c # cs) = [] \<and> c = CHR ''-'' \<and> stripTrailing cs = []"
    then show ?thesis by simp
  next
    assume e: "stripTrailing (c # cs) = c # stripTrailing cs"
    show ?thesis
    proof (cases "stripTrailing cs")
      case Nil
      with e show ?thesis by simp
    next
      case (Cons d ds)
      from stripTrailing_hd[OF Cons] obtain rest where r: "cs = d # rest" by blast
      with Cons.prems have "\<not> (c = CHR ''-'' \<and> d = CHR ''-'')" by simp
      moreover from ih Cons have "noDoubleHyphen (d # ds)" by simp
      ultimately have "noDoubleHyphen (c # d # ds)" by simp
      with e Cons show ?thesis by simp
    qed
  qed
qed

lemma set_stripTrailing: "x \<in> set (stripTrailing s) \<Longrightarrow> x \<in> set s"
proof (induction s)
  case Nil
  then show ?case by simp
next
  case (Cons c cs)
  from stripTrailing_Cons[of c cs] show ?case
  proof
    assume "stripTrailing (c # cs) = [] \<and> c = CHR ''-'' \<and> stripTrailing cs = []"
    with Cons.prems show ?thesis by simp
  next
    assume e: "stripTrailing (c # cs) = c # stripTrailing cs"
    with Cons.prems have "x = c \<or> x \<in> set (stripTrailing cs)" by simp
    with Cons.IH show ?thesis by auto
  qed
qed

lemma stripTrailing_last: "stripTrailing s \<noteq> [] \<Longrightarrow> last (stripTrailing s) \<noteq> CHR ''-''"
proof (induction s)
  case Nil
  then show ?case by simp
next
  case (Cons c cs)
  from stripTrailing_Cons[of c cs] Cons.prems
  have e: "stripTrailing (c # cs) = c # stripTrailing cs" by blast
  show ?case
  proof (cases "stripTrailing cs = []")
    case True
    have "c \<noteq> CHR ''-''"
    proof
      assume "c = CHR ''-''"
      with True have "stripTrailing (c # cs) = []" by simp
      with Cons.prems show False by simp
    qed
    with e True show ?thesis by simp
  next
    case False
    from Cons.IH[OF False] e False show ?thesis by simp
  qed
qed

lemma stripTrailing_id: "s \<noteq> [] \<Longrightarrow> last s \<noteq> CHR ''-'' \<Longrightarrow> stripTrailing s = s"
proof (induction s)
  case Nil
  then show ?case by simp
next
  case (Cons c cs)
  show ?case
  proof (cases "cs = []")
    case True
    with Cons.prems show ?thesis by simp
  next
    case False
    with Cons.prems have "last cs \<noteq> CHR ''-''" by simp
    from Cons.IH[OF False this] False show ?thesis by simp
  qed
qed

lemma stripHyphens_head:
  assumes h: "stripHyphens s = c # cs"
  shows "c \<noteq> CHR ''-''"
proof -
  let ?ys = "dropWhile (\<lambda>c. c = CHR ''-'') s"
  from h have st: "stripTrailing ?ys = c # cs" by (simp add: stripHyphens_def)
  from stripTrailing_hd[OF st] obtain rest where r: "?ys = c # rest" by blast
  then have "?ys \<noteq> []" by simp
  then have "\<not> (hd ?ys = CHR ''-'')" by (rule hd_dropWhile)
  with r show ?thesis by simp
qed

lemma isSlug_cleanAnchor: "isSlug (cleanAnchor s)"
proof -
  let ?c = "collapse (toLowerCase s)"
  have "\<forall>c\<in>set (toLowerCase s). isAlnum c \<longrightarrow> isSlugChar c"
    by (auto simp: toLowerCase_def isAlnum_toLower)
  then have chars: "\<forall>c\<in>set ?c. isSlugChar c" by (rule collapse_slug_chars)
  have "\<forall>x\<in>set (cleanAnchor s). isSlugChar x"
  proof
    fix x assume "x \<in> set (cleanAnchor s)"
    then have "x \<in> set (stripTrailing (dropWhile (\<lambda>c. c = CHR ''-'') ?c))"
      by (simp add: cleanAnchor_def stripHyphens_def)
    then have "x \<in> set (dropWhile (\<lambda>c. c = CHR ''-'') ?c)" by (rule set_stripTrailing)
    then have "x \<in> set ?c" by (rule set_dropWhileD)
    with chars show "isSlugChar x" by blast
  qed
  then have a: "list_all isSlugChar (cleanAnchor s)" by (simp add: list_all_iff)
  have b: "noDoubleHyphen (cleanAnchor s)"
    unfolding cleanAnchor_def stripHyphens_def
    by (intro noDoubleHyphen_stripTrailing noDoubleHyphen_dropWhile noDoubleHyphen_collapse)
  have c: "case cleanAnchor s of [] \<Rightarrow> True | c # cs \<Rightarrow> c \<noteq> CHR ''-'' \<and> last (cleanAnchor s) \<noteq> CHR ''-''"
  proof (cases "cleanAnchor s")
    case Nil
    then show ?thesis by simp
  next
    case (Cons x xs)
    then have "stripHyphens ?c = x # xs" by (simp add: cleanAnchor_def)
    then have x: "x \<noteq> CHR ''-''" by (rule stripHyphens_head)
    have "stripTrailing (dropWhile (\<lambda>c. c = CHR ''-'') ?c) \<noteq> []"
      using Cons by (simp add: cleanAnchor_def stripHyphens_def)
    from stripTrailing_last[OF this] have "last (cleanAnchor s) \<noteq> CHR ''-''"
      by (simp add: cleanAnchor_def stripHyphens_def)
    with x Cons show ?thesis by simp
  qed
  from a b c show ?thesis by (simp add: isSlug_def)
qed

lemma collapse_slug: "list_all isSlugChar s \<Longrightarrow> noDoubleHyphen s \<Longrightarrow> collapse s = s"
proof (induction s rule: collapse.induct)
  case 1
  then show ?case by simp
next
  case (2 c)
  then have "isSlugChar c" by simp
  then have "\<not> isAlnum c \<longrightarrow> c = CHR ''-''" using isSlugChar_alnum by blast
  then show ?case by simp
next
  case (3 c d cs)
  from 3(4) have sc: "isSlugChar c" and sd: "isSlugChar d" and rest: "list_all isSlugChar (d # cs)" by simp_all
  from 3(5) have nd: "noDoubleHyphen (d # cs)" and ncd: "\<not> (c = CHR ''-'' \<and> d = CHR ''-'')" by simp_all
  show ?case
  proof (cases "isAlnum c")
    case True
    from 3(1)[OF True rest nd] True show ?thesis by simp
  next
    case False
    with sc have "c = CHR ''-''" using isSlugChar_alnum by blast
    with ncd have "d \<noteq> CHR ''-''" by simp
    with sd have ad: "isAlnum d" by (rule isSlugChar_alnum)
    from 3(2)[OF False ad rest nd] False ad \<open>c = CHR ''-''\<close> show ?thesis by simp
  qed
qed

lemma cleanAnchor_slug: "isSlug s \<Longrightarrow> cleanAnchor s = s"
proof -
  assume h: "isSlug s"
  then have chars: "list_all isSlugChar s" and nd: "noDoubleHyphen s" by (simp_all add: isSlug_def)
  have l: "toLowerCase s = s"
    unfolding toLowerCase_def using chars by (intro map_idI) (simp add: list_all_iff isSlugChar_toLower)
  have c: "collapse s = s" using chars nd by (rule collapse_slug)
  have st: "stripHyphens s = s"
  proof (cases s)
    case Nil
    then show ?thesis by (simp add: stripHyphens_def)
  next
    case (Cons x xs)
    with h have x: "x \<noteq> CHR ''-''" and la: "last s \<noteq> CHR ''-''" by (simp_all add: isSlug_def)
    from x Cons have "dropWhile (\<lambda>c. c = CHR ''-'') s = s" by simp
    moreover have "stripTrailing s = s" using Cons la by (intro stripTrailing_id) simp_all
    ultimately show ?thesis by (simp add: stripHyphens_def)
  qed
  show ?thesis by (simp add: cleanAnchor_def l c st)
qed


section \<open>The claims\<close>

subsection \<open>C1\<close>

text \<open>
  C1. For a route with a non-empty anchor list whose headings are all in the document, one
  run of \<^verbatim>\<open>onScroll\<close> completes and sets the active anchor to the last anchor, in list
  order, whose element's top less 26 pixels is below zero, and to the first anchor of the
  list when no anchor satisfies that. It looks every anchor up once, in order, and changes
  nothing else.
\<close>

theorem C1_onScroll_last_passed:
  assumes "List.find (pathMatches p) ROUTES = Some r" and "anchors r = Some as" and "as \<noteq> []"
    and "\<forall>a\<in>set as. present d a"
  shows "onScroll ROUTES p d pg =
           Normal (pg\<lparr>activeAnchor :=
                        Str (if filter (pastThreshold d) as = [] then hd as
                             else last (filter (pastThreshold d) as)),
                      lookups := lookups pg @ map cleanAnchor as\<rparr>)"
  using onScroll_present[OF assms(1,2,4)] lastPassed_nonempty[OF assms(3)] by simp

text \<open>
  On the small site: with A and B past the threshold and C not, the active anchor is B;
  with none past it, the active anchor is A.
\<close>

theorem C1_witness:
  "List.find (pathMatches ''/react'') exampleRoutes = Some (exampleRoutes ! 1)
   \<and> anchors (exampleRoutes ! 1) = Some [''A'', ''B'', ''C'']
   \<and> list_all (present domAB) [''A'', ''B'', ''C'']
   \<and> list_all (present domTop) [''A'', ''B'', ''C'']
   \<and> activeAnchor (pageOf (onScroll exampleRoutes ''/react'' domAB (initialPage exampleRoutes ''/react'' {}))) = Str ''B''
   \<and> activeAnchor (pageOf (onScroll exampleRoutes ''/react'' domTop (initialPage exampleRoutes ''/react'' {}))) = Str ''A''"
proof -
  have h1: "List.find (pathMatches ''/react'') exampleRoutes = Some (exampleRoutes ! 1)" by code_simp
  have h2: "anchors (exampleRoutes ! 1) = Some [''A'', ''B'', ''C'']" by code_simp
  have h3: "[''A'', ''B'', ''C''] \<noteq> []" by simp
  have l4: "list_all (present domAB) [''A'', ''B'', ''C'']" by code_simp
  have l5: "list_all (present domTop) [''A'', ''B'', ''C'']" by code_simp
  have h4: "\<forall>a\<in>set [''A'', ''B'', ''C'']. present domAB a" using l4 by (simp only: list_all_iff)
  have h5: "\<forall>a\<in>set [''A'', ''B'', ''C'']. present domTop a" using l5 by (simp only: list_all_iff)
  have f4: "filter (pastThreshold domAB) [''A'', ''B'', ''C''] = [''A'', ''B'']" by code_simp
  have f5: "filter (pastThreshold domTop) [''A'', ''B'', ''C''] = []" by code_simp
  have a: "activeAnchor (pageOf (onScroll exampleRoutes ''/react'' domAB (initialPage exampleRoutes ''/react'' {}))) = Str ''B''"
    using C1_onScroll_last_passed[OF h1 h2 h3 h4, of "initialPage exampleRoutes ''/react'' {}"] f4 by simp
  have b: "activeAnchor (pageOf (onScroll exampleRoutes ''/react'' domTop (initialPage exampleRoutes ''/react'' {}))) = Str ''A''"
    using C1_onScroll_last_passed[OF h1 h2 h3 h5, of "initialPage exampleRoutes ''/react'' {}"] f5 by simp
  from h1 h2 l4 l5 a b show ?thesis by blast
qed

subsection \<open>C2\<close>

text \<open>
  C2, as stated, fails: with the heading of B missing, \<^verbatim>\<open>onScroll\<close> does not complete.
  It stops at B, the anchor C (which is past the threshold) is never looked at, and the
  active anchor stays what it was.
\<close>

theorem C2_counterexample:
  "\<not> completed (onScroll exampleRoutes ''/react'' domMissing (initialPage exampleRoutes ''/react'' {}))
   \<and> activeAnchor (pageOf (onScroll exampleRoutes ''/react'' domMissing (initialPage exampleRoutes ''/react'' {}))) = Str ''A''
   \<and> lookups (pageOf (onScroll exampleRoutes ''/react'' domMissing (initialPage exampleRoutes ''/react'' {}))) = [''a'', ''b'']
   \<and> pastThreshold domMissing ''C''"
  by code_simp

text \<open>
  C2, amended. The recomputation completes exactly when every anchor of the route has its
  element. When one is missing, the scan looks up the anchors in list order up to and
  including the first missing one, throws a \<^verbatim>\<open>TypeError\<close> there, never reaches
  \<^verbatim>\<open>setState\<close>, and the active anchor stays what it was.
\<close>

theorem C2_missing_element_throws:
  assumes "List.find (pathMatches p) ROUTES = Some r" and "anchors r = Some as"
  shows "(completed (onScroll ROUTES p d pg) \<longleftrightarrow> (\<forall>a\<in>set as. present d a))
       \<and> ((\<exists>a\<in>set as. \<not> present d a) \<longrightarrow>
            onScroll ROUTES p d pg =
              Thrown TypeError
                (pg\<lparr>lookups := lookups pg @ map cleanAnchor (takeWhile (present d) as)
                        @ [cleanAnchor (hd (dropWhile (present d) as))]\<rparr>)
            \<and> activeAnchor (pageOf (onScroll ROUTES p d pg)) = activeAnchor pg)"
proof (cases "\<forall>a\<in>set as. present d a")
  case True
  from onScroll_present[OF assms True] True show ?thesis by simp
next
  case False
  then have m: "\<exists>a\<in>set as. \<not> present d a" by simp
  from onScroll_missing[OF assms m] False show ?thesis by simp
qed

text \<open>On the small site, with the heading of B missing: A and B are looked up, then the throw.\<close>

theorem C2_witness:
  "List.find (pathMatches ''/react'') exampleRoutes = Some (exampleRoutes ! 1)
   \<and> anchors (exampleRoutes ! 1) = Some [''A'', ''B'', ''C'']
   \<and> \<not> list_all (present domMissing) [''A'', ''B'', ''C'']
   \<and> onScroll exampleRoutes ''/react'' domMissing (initialPage exampleRoutes ''/react'' {}) =
       Thrown TypeError ((initialPage exampleRoutes ''/react'' {})\<lparr>lookups := [''a'', ''b'']\<rparr>)"
proof -
  have h1: "List.find (pathMatches ''/react'') exampleRoutes = Some (exampleRoutes ! 1)" by code_simp
  have h2: "anchors (exampleRoutes ! 1) = Some [''A'', ''B'', ''C'']" by code_simp
  have l3: "\<not> list_all (present domMissing) [''A'', ''B'', ''C'']" by code_simp
  then have h3: "\<exists>a\<in>set [''A'', ''B'', ''C'']. \<not> present domMissing a" unfolding list_all_iff by blast
  have tw: "map cleanAnchor (takeWhile (present domMissing) [''A'', ''B'', ''C''])
              @ [cleanAnchor (hd (dropWhile (present domMissing) [''A'', ''B'', ''C'']))] = [''a'', ''b'']"
    by code_simp
  have lk: "lookups (initialPage exampleRoutes ''/react'' {}) = []" by (simp add: initialPage_def)
  from C2_missing_element_throws[OF h1 h2, of domMissing "initialPage exampleRoutes ''/react'' {}"] h3
  have "onScroll exampleRoutes ''/react'' domMissing (initialPage exampleRoutes ''/react'' {}) =
       Thrown TypeError ((initialPage exampleRoutes ''/react'' {})\<lparr>lookups := [''a'', ''b'']\<rparr>)"
    using tw lk by simp
  with h1 h2 l3 show ?thesis by blast
qed

subsection \<open>C3\<close>

text \<open>
  C3, as stated, fails: the page of the small site without sections has an empty anchor
  array, which \<^verbatim>\<open>Array.isArray\<close> accepts, so mounting it registers the scroll listener.
\<close>

theorem C3_counterexample:
  "List.find (pathMatches ''/'') exampleRoutes = Some (exampleRoutes ! 0)
   \<and> anchors (exampleRoutes ! 0) = Some []
   \<and> scrollListeners (initialPage exampleRoutes ''/'' {}) = {}
   \<and> scrollListeners (lifetime exampleRoutes ''/'' {} [Mount domTop]) = {DebouncedOnScroll}"
  by code_simp

text \<open>
  C3, amended. For a route whose anchor list is empty, no element is ever looked up or
  measured and the active-anchor state holds no anchor for the whole lifetime of the page
  view (it is \<^verbatim>\<open>undefined\<close>, element 0 of the empty array); but mounting does register
  the scroll listener, since the guard is \<^verbatim>\<open>Array.isArray\<close>. Only a route with no anchor
  array at all registers no listener; its state stays \<^verbatim>\<open>null\<close>.
\<close>

theorem C3_empty_anchor_list:
  "(List.find (pathMatches p) ROUTES = Some r \<and> anchors r = Some [] \<longrightarrow>
      lookups (lifetime ROUTES p ls es) = []
      \<and> activeAnchor (lifetime ROUTES p ls es) = Undefined
      \<and> scrollListeners (lifetime ROUTES p ls [Mount d]) = insert DebouncedOnScroll ls)
   \<and> (List.find (pathMatches p) ROUTES = Some r \<and> anchors r = None \<and> DebouncedOnScroll \<notin> ls \<longrightarrow>
      lookups (lifetime ROUTES p ls es) = []
      \<and> activeAnchor (lifetime ROUTES p ls es) = Null
      \<and> DebouncedOnScroll \<notin> scrollListeners (lifetime ROUTES p ls es))"
proof -
  have a: "List.find (pathMatches p) ROUTES = Some r \<and> anchors r = Some [] \<longrightarrow>
      lookups (lifetime ROUTES p ls es) = []
      \<and> activeAnchor (lifetime ROUTES p ls es) = Undefined
      \<and> scrollListeners (lifetime ROUTES p ls [Mount d]) = insert DebouncedOnScroll ls"
  proof
    assume h: "List.find (pathMatches p) ROUTES = Some r \<and> anchors r = Some []"
    then have r: "List.find (pathMatches p) ROUTES = Some r" and e: "anchors r = Some []" by simp_all
    have "scrollListeners (lifetime ROUTES p ls [Mount d]) = insert DebouncedOnScroll ls"
      using onScroll_frame[of ROUTES p d
          "(initialPage ROUTES p ls)\<lparr>scrollListeners := insert DebouncedOnScroll (scrollListeners (initialPage ROUTES p ls))\<rparr>"]
      by (simp add: lifetime_def componentDidMount_anchors[OF r e] initialPage_def)
    with empty_anchors_inert[OF r e, of ls es]
    show "lookups (lifetime ROUTES p ls es) = []
      \<and> activeAnchor (lifetime ROUTES p ls es) = Undefined
      \<and> scrollListeners (lifetime ROUTES p ls [Mount d]) = insert DebouncedOnScroll ls"
      by simp
  qed
  have b: "List.find (pathMatches p) ROUTES = Some r \<and> anchors r = None \<and> DebouncedOnScroll \<notin> ls \<longrightarrow>
      lookups (lifetime ROUTES p ls es) = []
      \<and> activeAnchor (lifetime ROUTES p ls es) = Null
      \<and> DebouncedOnScroll \<notin> scrollListeners (lifetime ROUTES p ls es)"
    using absent_anchors_inert[of p ROUTES r ls es] by blast
  from a b show ?thesis by blast
qed

text \<open>
  On the small site: the page without sections never looks an element up and stays at
  \<^verbatim>\<open>undefined\<close>, with the listener registered; the external link, without anchors,
  registers none.
\<close>

theorem C3_witness:
  "List.find (pathMatches ''/'') exampleRoutes = Some (exampleRoutes ! 0)
   \<and> anchors (exampleRoutes ! 0) = Some []
   \<and> lookups (lifetime exampleRoutes ''/'' {} [Mount domTop, Scroll domAB, Toggle, Scroll domMissing]) = []
   \<and> activeAnchor (lifetime exampleRoutes ''/'' {} [Mount domTop, Scroll domAB, Toggle, Scroll domMissing]) = Undefined
   \<and> scrollListeners (lifetime exampleRoutes ''/'' {} [Mount domTop]) = {DebouncedOnScroll}
   \<and> List.find (pathMatches ''https://github.com/styletron/styletron'') exampleRoutes = Some (exampleRoutes ! 2)
   \<and> anchors (exampleRoutes ! 2) = None
   \<and> scrollListeners (lifetime exampleRoutes ''https://github.com/styletron/styletron'' {} [Mount domTop, Scroll domAB]) = {}"
proof -
  have h1: "List.find (pathMatches ''/'') exampleRoutes = Some (exampleRoutes ! 0)" by code_simp
  have h2: "anchors (exampleRoutes ! 0) = Some []" by code_simp
  have h3: "List.find (pathMatches ''https://github.com/styletron/styletron'') exampleRoutes = Some (exampleRoutes ! 2)"
    by code_simp
  have h4: "anchors (exampleRoutes ! 2) = None" by code_simp
  have n: "DebouncedOnScroll \<notin> {}" by simp
  have s: "scrollListeners (lifetime exampleRoutes ''https://github.com/styletron/styletron'' {} [Mount domTop, Scroll domAB]) = {}"
    by code_simp
  from C3_empty_anchor_list[of "''/''" exampleRoutes "exampleRoutes ! 0" "{}"
      "[Mount domTop, Scroll domAB, Toggle, Scroll domMissing]" domTop] h1 h2
  have a: "lookups (lifetime exampleRoutes ''/'' {} [Mount domTop, Scroll domAB, Toggle, Scroll domMissing]) = []
   \<and> activeAnchor (lifetime exampleRoutes ''/'' {} [Mount domTop, Scroll domAB, Toggle, Scroll domMissing]) = Undefined
   \<and> scrollListeners (lifetime exampleRoutes ''/'' {} [Mount domTop]) = {DebouncedOnScroll}"
    by simp
  from h1 h2 h3 h4 a s show ?thesis by blast
qed

subsection \<open>C4\<close>

text \<open>
  C4, as stated, fails. A path that matches no route leaves every route unmarked; the page
  without sections has its route marked but no anchor item to mark; and a matched route
  without an anchor array makes the rendering throw.
\<close>

theorem C4_counterexample:
  "length (rendered (renderSidebar exampleRoutes ''/themes'' (initialPage exampleRoutes ''/themes'' {}))) = 3
   \<and> activeRouteCount (rendered (renderSidebar exampleRoutes ''/themes'' (initialPage exampleRoutes ''/themes'' {}))) = 0
   \<and> activeRouteCount (rendered (renderSidebar exampleRoutes ''/'' (lifetime exampleRoutes ''/'' {} [Mount domTop]))) = 1
   \<and> activeAnchorCount (rendered (renderSidebar exampleRoutes ''/'' (lifetime exampleRoutes ''/'' {} [Mount domTop]))) = 0
   \<and> renderSidebar exampleRoutes ''https://github.com/styletron/styletron''
        (initialPage exampleRoutes ''https://github.com/styletron/styletron'' {}) = Inl TypeError"
  by code_simp

text \<open>
  C4, amended. When the current path matches a route (\<^verbatim>\<open>getPathIndex\<close> gives the first
  such route) and that route has an anchor array, the renderer returns one fragment per
  route, marks that route and no other as active, renders anchor items only under it, one
  per anchor and in order, and marks an anchor item active exactly when its anchor equals
  the tracked active anchor. So exactly one anchor item is active when the tracked anchor
  is a member of a duplicate-free anchor list, and none is when the state holds no anchor.
\<close>

theorem C4_navigation_marks_active:
  assumes "getPathIndex ROUTES p = int i" and "anchors (ROUTES ! i) = Some as"
  shows "\<exists>fs. renderSidebar ROUTES p pg = Inr fs \<and> length fs = length ROUTES
     \<and> i < length ROUTES \<and> pathMatches p (ROUTES ! i)
     \<and> (\<forall>j<length ROUTES. itemActive (routeEntry (fs ! j)) = (j = i)
           \<and> linkActive (routeEntry (fs ! j)) = (j = i))
     \<and> activeRouteCount fs = 1
     \<and> (\<forall>j<length ROUTES. j \<noteq> i \<longrightarrow> anchorEntries (fs ! j) = [])
     \<and> map anchorText (anchorEntries (fs ! i)) = as
     \<and> (\<forall>k<length as. anchorActive (anchorEntries (fs ! i) ! k) = (activeAnchor pg = Str (as ! k)))
     \<and> activeAnchorCount fs = length (filter (\<lambda>a. activeAnchor pg = Str a) as)
     \<and> (distinct as \<and> (\<exists>a\<in>set as. activeAnchor pg = Str a) \<longrightarrow> activeAnchorCount fs = 1)
     \<and> (noAnchor (activeAnchor pg) \<longrightarrow> activeAnchorCount fs = 0)"
proof -
  from assms(1) have i: "i < length ROUTES" and m: "pathMatches p (ROUTES ! i)"
    by (simp_all add: getPathIndex_def findIndex_eq_iff)
  from Navigation_current[OF i assms(2), of "sidebarVisible pg" "activeAnchor pg"] obtain fs where
    fs: "Navigation ROUTES (sidebarVisible pg) (int i) (activeAnchor pg) = Inr fs"
      "length fs = length ROUTES"
      "\<forall>j<length ROUTES. itemActive (routeEntry (fs ! j)) = (j = i)
           \<and> linkActive (routeEntry (fs ! j)) = (j = i)
           \<and> linkHref (routeEntry (fs ! j)) = path (ROUTES ! j)
           \<and> linkText (routeEntry (fs ! j)) = label (ROUTES ! j)"
      "\<forall>j<length ROUTES. j \<noteq> i \<longrightarrow> anchorEntries (fs ! j) = []"
      "anchorEntries (fs ! i) = map (renderAnchor (activeAnchor pg)) as"
      "activeRouteCount fs = 1"
      "activeAnchorCount fs = length (filter (\<lambda>a. activeAnchor pg = Str a) as)"
    by blast
  have r: "renderSidebar ROUTES p pg = Inr fs" using fs(1) assms(1) by (simp add: renderSidebar_def)
  have it: "\<forall>j<length ROUTES. itemActive (routeEntry (fs ! j)) = (j = i)
           \<and> linkActive (routeEntry (fs ! j)) = (j = i)"
    using fs(3) by blast
  have tx: "map anchorText (anchorEntries (fs ! i)) = as"
    unfolding fs(5) by (simp add: o_def renderAnchor_def)
  have ac: "\<forall>k<length as. anchorActive (anchorEntries (fs ! i) ! k) = (activeAnchor pg = Str (as ! k))"
    unfolding fs(5) by (simp add: anchorActive_renderAnchor)
  have one: "distinct as \<and> (\<exists>a\<in>set as. activeAnchor pg = Str a) \<longrightarrow> activeAnchorCount fs = 1"
    unfolding fs(7) using count_member_distinct[of as] by auto
  have none: "noAnchor (activeAnchor pg) \<longrightarrow> activeAnchorCount fs = 0"
    unfolding fs(7) using count_noAnchor[of "activeAnchor pg" as] by blast
  show ?thesis
    using r fs(2) i m it fs(6) fs(4) tx ac fs(7) one none
    by - (intro exI[of _ fs] conjI; assumption)
qed

text \<open>
  On the small site: at \<^verbatim>\<open>/react/\<close>, scrolled so that A and B are past the threshold, the
  route at index 1 is the one marked, its three anchors are listed under it, and B alone
  is marked.
\<close>

theorem C4_witness:
  "getPathIndex exampleRoutes ''/react/'' = 1
   \<and> anchors (exampleRoutes ! 1) = Some [''A'', ''B'', ''C'']
   \<and> activeAnchor (lifetime exampleRoutes ''/react/'' {} [Mount domAB]) = Str ''B''
   \<and> activeRouteCount (rendered (renderSidebar exampleRoutes ''/react/'' (lifetime exampleRoutes ''/react/'' {} [Mount domAB]))) = 1
   \<and> activeAnchorCount (rendered (renderSidebar exampleRoutes ''/react/'' (lifetime exampleRoutes ''/react/'' {} [Mount domAB]))) = 1
   \<and> map anchorText (anchorEntries (rendered (renderSidebar exampleRoutes ''/react/'' (lifetime exampleRoutes ''/react/'' {} [Mount domAB])) ! 1)) = [''A'', ''B'', ''C'']"
proof -
  let ?pg = "lifetime exampleRoutes ''/react/'' {} [Mount domAB]"
  have h1: "getPathIndex exampleRoutes ''/react/'' = int 1" by code_simp
  have h2: "anchors (exampleRoutes ! 1) = Some [''A'', ''B'', ''C'']" by code_simp
  have v: "activeAnchor ?pg = Str ''B''" by code_simp
  have d: "distinct [''A'', ''B'', ''C'']" by simp
  have m: "\<exists>a\<in>set [''A'', ''B'', ''C'']. activeAnchor ?pg = Str a" unfolding v by simp
  from C4_navigation_marks_active[OF h1 h2, of ?pg] show ?thesis
  proof (elim exE conjE)
    fix fs
    assume r: "renderSidebar exampleRoutes ''/react/'' ?pg = Inr fs"
      and rc: "activeRouteCount fs = 1"
      and tx: "map anchorText (anchorEntries (fs ! 1)) = [''A'', ''B'', ''C'']"
      and one: "distinct [''A'', ''B'', ''C''] \<and> (\<exists>a\<in>set [''A'', ''B'', ''C'']. activeAnchor ?pg = Str a)
                  \<longrightarrow> activeAnchorCount fs = 1"
    from one d m have c: "activeAnchorCount fs = 1" by blast
    have rd: "rendered (renderSidebar exampleRoutes ''/react/'' ?pg) = fs" unfolding r by simp
    have g1: "getPathIndex exampleRoutes ''/react/'' = 1" using h1 by simp
    show ?thesis unfolding rd using g1 h2 v rc c tx by - (intro conjI; assumption)
  qed
qed

subsection \<open>C5\<close>

text \<open>
  C5. The callback of \<^verbatim>\<open>findIndex\<close> in \<^verbatim>\<open>getPathIndex\<close> accepts a route exactly when the
  route's path and the current path are equal once every \<^verbatim>\<open>/\<close> is removed from both;
  \<^verbatim>\<open>getPathIndex\<close> is the index of the first route accepted, and \<open>-1\<close> exactly when none
  is. In particular the path \<^verbatim>\<open>/react/\<close> matches a route of path \<^verbatim>\<open>/react\<close>, and that
  route is picked.
\<close>

theorem C5_getPathIndex_separator_insensitive:
  "(pathMatches p r \<longleftrightarrow>
      filter (\<lambda>c. c \<noteq> CHR ''/'') (path r) = filter (\<lambda>c. c \<noteq> CHR ''/'') p)
   \<and> (getPathIndex ROUTES p = int i \<longleftrightarrow>
        i < length ROUTES \<and> pathMatches p (ROUTES ! i) \<and> (\<forall>j<i. \<not> pathMatches p (ROUTES ! j)))
   \<and> (getPathIndex ROUTES p = - 1 \<longleftrightarrow> (\<forall>r\<in>set ROUTES. \<not> pathMatches p r))
   \<and> (getPathIndex ROUTES p = - 1 \<or> (0 \<le> getPathIndex ROUTES p \<and> getPathIndex ROUTES p < int (length ROUTES)))
   \<and> pathMatches ''/react/'' \<lparr>path = ''/react'', label = l, anchors = as\<rparr>
   \<and> getPathIndex [\<lparr>path = ''/react'', label = l, anchors = as\<rparr>] ''/react/'' = 0"
proof -
  have a: "pathMatches p r \<longleftrightarrow>
      filter (\<lambda>c. c \<noteq> CHR ''/'') (path r) = filter (\<lambda>c. c \<noteq> CHR ''/'') p"
    by (simp add: pathMatches_def stripSeparators_filter)
  have b: "getPathIndex ROUTES p = int i \<longleftrightarrow>
        i < length ROUTES \<and> pathMatches p (ROUTES ! i) \<and> (\<forall>j<i. \<not> pathMatches p (ROUTES ! j))"
    unfolding getPathIndex_def by (rule findIndex_eq_iff)
  have c: "getPathIndex ROUTES p = - 1 \<longleftrightarrow> (\<forall>r\<in>set ROUTES. \<not> pathMatches p r)"
    unfolding getPathIndex_def by (rule findIndex_none_iff)
  have d: "getPathIndex ROUTES p = - 1 \<or> (0 \<le> getPathIndex ROUTES p \<and> getPathIndex ROUTES p < int (length ROUTES))"
    unfolding getPathIndex_def by (rule findIndex_range)
  have e: "pathMatches ''/react/'' \<lparr>path = ''/react'', label = l, anchors = as\<rparr>"
    by (simp add: pathMatches_def stripSeparators_filter)
  have f: "getPathIndex [\<lparr>path = ''/react'', label = l, anchors = as\<rparr>] ''/react/'' = 0"
    using e by (simp add: getPathIndex_def findIndex_def)
  from a b c d e f show ?thesis by blast
qed

text \<open>
  On the small site: \<^verbatim>\<open>/react/\<close> selects the route of path \<^verbatim>\<open>/react\<close>, at index 1, and
  \<^verbatim>\<open>/reactor\<close> selects none.
\<close>

theorem C5_witness:
  "getPathIndex exampleRoutes ''/react/'' = 1
   \<and> pathMatches ''/react/'' (exampleRoutes ! 1)
   \<and> \<not> pathMatches ''/react/'' (exampleRoutes ! 0)
   \<and> path (exampleRoutes ! 1) = ''/react''
   \<and> getPathIndex exampleRoutes ''/reactor'' = - 1"
proof -
  have m1: "pathMatches ''/react/'' (exampleRoutes ! 1)" by code_simp
  have m0: "\<not> pathMatches ''/react/'' (exampleRoutes ! 0)" by code_simp
  have len: "1 < length exampleRoutes" by code_simp
  have pth: "path (exampleRoutes ! 1) = ''/react''" by code_simp
  have none: "list_all (\<lambda>r. \<not> pathMatches ''/reactor'' r) exampleRoutes" by code_simp
  have "getPathIndex exampleRoutes ''/react/'' = int 1"
    using C5_getPathIndex_separator_insensitive[of "''/react/''" _ exampleRoutes 1] m1 m0 len by simp
  moreover have "getPathIndex exampleRoutes ''/reactor'' = - 1"
    using C5_getPathIndex_separator_insensitive[of "''/reactor''" _ exampleRoutes] none
    by (simp add: list_all_iff)
  ultimately show ?thesis using m1 m0 pth by simp
qed

subsection \<open>C6\<close>

text \<open>
  C6. Before any recomputation, the active anchor is the first anchor of the anchor list of
  the route the current path matches; it is \<^verbatim>\<open>null\<close> when no route matches or the route
  has no anchor list. (For an anchor list that is empty, element 0 is \<^verbatim>\<open>undefined\<close>.)
\<close>

theorem C6_initial_active_anchor:
  "(List.find (pathMatches p) ROUTES = Some r \<and> anchors r = Some (a # as) \<longrightarrow>
      activeAnchor (initialPage ROUTES p ls) = Str a)
   \<and> (List.find (pathMatches p) ROUTES = Some r \<and> anchors r = Some [] \<longrightarrow>
      activeAnchor (initialPage ROUTES p ls) = Undefined)
   \<and> (List.find (pathMatches p) ROUTES = Some r \<and> anchors r = None \<longrightarrow>
      activeAnchor (initialPage ROUTES p ls) = Null)
   \<and> (List.find (pathMatches p) ROUTES = None \<longrightarrow>
      activeAnchor (initialPage ROUTES p ls) = Null)"
  by (simp add: initialPage_def currentRoute_find)

text \<open>
  On the small site: \<^verbatim>\<open>/react/\<close> starts at A; an unknown path and the external link, which
  has no anchors, start at \<^verbatim>\<open>null\<close>.
\<close>

theorem C6_witness:
  "List.find (pathMatches ''/react/'') exampleRoutes = Some (exampleRoutes ! 1)
   \<and> anchors (exampleRoutes ! 1) = Some [''A'', ''B'', ''C'']
   \<and> activeAnchor (initialPage exampleRoutes ''/react/'' {}) = Str ''A''
   \<and> List.find (pathMatches ''/themes'') exampleRoutes = None
   \<and> activeAnchor (initialPage exampleRoutes ''/themes'' {}) = Null
   \<and> List.find (pathMatches ''https://github.com/styletron/styletron'') exampleRoutes = Some (exampleRoutes ! 2)
   \<and> anchors (exampleRoutes ! 2) = None
   \<and> activeAnchor (initialPage exampleRoutes ''https://github.com/styletron/styletron'' {}) = Null"
proof -
  have h1: "List.find (pathMatches ''/react/'') exampleRoutes = Some (exampleRoutes ! 1)" by code_simp
  have h2: "anchors (exampleRoutes ! 1) = Some [''A'', ''B'', ''C'']" by code_simp
  have h3: "List.find (pathMatches ''/themes'') exampleRoutes = None" by code_simp
  have h4: "List.find (pathMatches ''https://github.com/styletron/styletron'') exampleRoutes = Some (exampleRoutes ! 2)"
    by code_simp
  have h5: "anchors (exampleRoutes ! 2) = None" by code_simp
  have a: "activeAnchor (initialPage exampleRoutes ''/react/'' {}) = Str ''A''"
    using C6_initial_active_anchor[of "''/react/''" exampleRoutes "exampleRoutes ! 1" "''A''" "[''B'', ''C'']" "{}"] h1 h2
    by simp
  have b: "activeAnchor (initialPage exampleRoutes ''/themes'' {}) = Null"
    using C6_initial_active_anchor[of "''/themes''" exampleRoutes _ _ _ "{}"] h3 by simp
  have c: "activeAnchor (initialPage exampleRoutes ''https://github.com/styletron/styletron'' {}) = Null"
    using C6_initial_active_anchor[of "''https://github.com/styletron/styletron''" exampleRoutes "exampleRoutes ! 2" _ _ "{}"] h4 h5
    by simp
  from h1 h2 h3 h4 h5 a b c show ?thesis by blast
qed

subsection \<open>C7\<close>

text \<open>
  C7. At every point of a page view's lifetime (after initialisation and after any sequence
  of mounts, scroll recomputations, sidebar toggles and unmounts), the active-anchor state
  is no anchor (\<^verbatim>\<open>null\<close>, or \<^verbatim>\<open>undefined\<close> for an empty anchor list) or a member of the
  anchor list of the route the current path matches; it is never an anchor of another
  route.
\<close>

theorem C7_active_anchor_of_current_route:
  "activeAnchor (lifetime ROUTES p ls es) = Null
   \<or> activeAnchor (lifetime ROUTES p ls es) = Undefined
   \<or> (\<exists>r as a. List.find (pathMatches p) ROUTES = Some r \<and> anchors r = Some as \<and> a \<in> set as
         \<and> activeAnchor (lifetime ROUTES p ls es) = Str a)"
  using lifetime_anchorOfPage[of ROUTES p ls es]
  by (auto simp: anchorOfPage_def split: jsval.splits option.splits)

text \<open>
  On the small site: after a mount, scrolls (one of them failing on a missing heading), a
  toggle and an unmount, the active anchor is B, an anchor of the page.
\<close>

theorem C7_witness:
  "activeAnchor (lifetime exampleRoutes ''/react'' {}
      [Mount domTop, Scroll domAB, Toggle, Scroll domMissing, Unmount, Scroll domTop]) = Str ''B''
   \<and> List.find (pathMatches ''/react'') exampleRoutes = Some (exampleRoutes ! 1)
   \<and> anchors (exampleRoutes ! 1) = Some [''A'', ''B'', ''C'']"
proof -
  have v: "activeAnchor (lifetime exampleRoutes ''/react'' {}
      [Mount domTop, Scroll domAB, Toggle, Scroll domMissing, Unmount, Scroll domTop]) = Str ''B''"
    by code_simp
  have h1: "List.find (pathMatches ''/react'') exampleRoutes = Some (exampleRoutes ! 1)" by code_simp
  have h2: "anchors (exampleRoutes ! 1) = Some [''A'', ''B'', ''C'']" by code_simp
  from C7_active_anchor_of_current_route[of exampleRoutes "''/react''" "{}"
      "[Mount domTop, Scroll domAB, Toggle, Scroll domMissing, Unmount, Scroll domTop]"] v h1 h2
  have "''B'' \<in> set [''A'', ''B'', ''C'']" by auto
  with v h1 h2 show ?thesis by blast
qed

subsection \<open>C8\<close>

text \<open>
  C8. On mount of a page whose route has an anchor list, the tracker adds its one scroll
  listener to the document and runs one recomputation at once, which (every heading being
  in the document) looks each anchor up once and sets the active anchor. Unmounting removes
  that listener unconditionally and touches no other; after it the listener is not
  registered.
\<close>

theorem C8_mount_registers_unmount_removes:
  assumes "List.find (pathMatches p) ROUTES = Some r" and "anchors r = Some as"
  shows "scrollListeners (pageOf (componentDidMount ROUTES p d pg)) =
           insert DebouncedOnScroll (scrollListeners pg)
       \<and> ((\<forall>a\<in>set as. present d a) \<longrightarrow>
            componentDidMount ROUTES p d pg =
              Normal (pg\<lparr>scrollListeners := insert DebouncedOnScroll (scrollListeners pg),
                         activeAnchor := lastPassed d as,
                         lookups := lookups pg @ map cleanAnchor as\<rparr>))
       \<and> scrollListeners (componentWillUnmount pg') = scrollListeners pg' - {DebouncedOnScroll}
       \<and> DebouncedOnScroll \<notin> scrollListeners (componentWillUnmount pg')
       \<and> (DebouncedOnScroll \<notin> scrollListeners pg \<longrightarrow>
            scrollListeners (componentWillUnmount (pageOf (componentDidMount ROUTES p d pg))) =
              scrollListeners pg)"
proof -
  have a: "scrollListeners (pageOf (componentDidMount ROUTES p d pg)) =
           insert DebouncedOnScroll (scrollListeners pg)"
    using onScroll_frame[of ROUTES p d "pg\<lparr>scrollListeners := insert DebouncedOnScroll (scrollListeners pg)\<rparr>"]
    by (simp add: componentDidMount_anchors[OF assms])
  have b: "(\<forall>a\<in>set as. present d a) \<longrightarrow>
            componentDidMount ROUTES p d pg =
              Normal (pg\<lparr>scrollListeners := insert DebouncedOnScroll (scrollListeners pg),
                         activeAnchor := lastPassed d as,
                         lookups := lookups pg @ map cleanAnchor as\<rparr>)"
    by (simp add: componentDidMount_anchors[OF assms] onScroll_present[OF assms])
  have c: "scrollListeners (componentWillUnmount pg') = scrollListeners pg' - {DebouncedOnScroll}"
    by (simp add: componentWillUnmount_def)
  have e: "DebouncedOnScroll \<notin> scrollListeners (componentWillUnmount pg')"
    by (simp add: componentWillUnmount_def)
  have f: "DebouncedOnScroll \<notin> scrollListeners pg \<longrightarrow>
            scrollListeners (componentWillUnmount (pageOf (componentDidMount ROUTES p d pg))) =
              scrollListeners pg"
    using a by (simp add: componentWillUnmount_def)
  from a b c e f show ?thesis by blast
qed

text \<open>
  On the small site, with another listener already on the document: mounting adds the
  tracker's listener and sets the active anchor to B; unmounting leaves the other listener
  alone.
\<close>

theorem C8_witness:
  "List.find (pathMatches ''/react'') exampleRoutes = Some (exampleRoutes ! 1)
   \<and> anchors (exampleRoutes ! 1) = Some [''A'', ''B'', ''C'']
   \<and> list_all (present domAB) [''A'', ''B'', ''C'']
   \<and> DebouncedOnScroll \<notin> scrollListeners (initialPage exampleRoutes ''/react'' {OtherListener 7})
   \<and> componentDidMount exampleRoutes ''/react'' domAB (initialPage exampleRoutes ''/react'' {OtherListener 7}) =
        Normal \<lparr> sidebarVisible = False, activeAnchor = Str ''B'',
                 scrollListeners = {DebouncedOnScroll, OtherListener 7},
                 lookups = [''a'', ''b'', ''c''] \<rparr>
   \<and> scrollListeners (componentWillUnmount (pageOf
        (componentDidMount exampleRoutes ''/react'' domAB (initialPage exampleRoutes ''/react'' {OtherListener 7})))) =
        {OtherListener 7}"
proof -
  let ?pg = "initialPage exampleRoutes ''/react'' {OtherListener 7}"
  have h1: "List.find (pathMatches ''/react'') exampleRoutes = Some (exampleRoutes ! 1)" by code_simp
  have h2: "anchors (exampleRoutes ! 1) = Some [''A'', ''B'', ''C'']" by code_simp
  have l3: "list_all (present domAB) [''A'', ''B'', ''C'']" by code_simp
  then have h3: "\<forall>a\<in>set [''A'', ''B'', ''C'']. present domAB a" by (simp only: list_all_iff)
  have pg: "?pg = \<lparr> sidebarVisible = False, activeAnchor = Str ''A'',
                 scrollListeners = {OtherListener 7}, lookups = [] \<rparr>"
    using h1 h2 by (simp add: initialPage_def currentRoute_find)
  have n: "DebouncedOnScroll \<notin> scrollListeners ?pg" by (simp add: pg)
  have lp: "lastPassed domAB [''A'', ''B'', ''C''] = Str ''B''" by code_simp
  have cl: "map cleanAnchor [''A'', ''B'', ''C''] = [''a'', ''b'', ''c'']" by code_simp
  note inst = C8_mount_registers_unmount_removes[OF h1 h2, of domAB ?pg]
  from inst h3 have m: "componentDidMount exampleRoutes ''/react'' domAB ?pg =
        Normal \<lparr> sidebarVisible = False, activeAnchor = Str ''B'',
                 scrollListeners = {DebouncedOnScroll, OtherListener 7},
                 lookups = [''a'', ''b'', ''c''] \<rparr>"
    unfolding lp cl by (simp add: pg)
  from inst n have u: "scrollListeners (componentWillUnmount (pageOf
        (componentDidMount exampleRoutes ''/react'' domAB ?pg))) = {OtherListener 7}"
    by (simp add: pg)
  from h1 h2 l3 n m u show ?thesis by blast
qed

subsection \<open>C9\<close>

text \<open>
  C9. The identifier transform is a function on strings (so pure, total and deterministic)
  and it is idempotent; its values are lowercase hyphenated strings, and every such string
  passes through unchanged. \<^verbatim>\<open>"Composing Styles"\<close> gives \<^verbatim>\<open>"composing-styles"\<close> and
  \<^verbatim>\<open>"$as prop"\<close> gives \<^verbatim>\<open>"as-prop"\<close>; the empty string gives the empty string.
\<close>

theorem C9_cleanAnchor_idempotent:
  "cleanAnchor (cleanAnchor s) = cleanAnchor s
   \<and> isSlug (cleanAnchor s)
   \<and> (isSlug s \<longrightarrow> cleanAnchor s = s)
   \<and> cleanAnchor ''Composing Styles'' = ''composing-styles''
   \<and> cleanAnchor ''$as prop'' = ''as-prop''
   \<and> cleanAnchor [] = []"
proof -
  have a: "cleanAnchor (cleanAnchor s) = cleanAnchor s"
    using isSlug_cleanAnchor[of s] by (rule cleanAnchor_slug)
  have b: "isSlug s \<longrightarrow> cleanAnchor s = s" using cleanAnchor_slug by blast
  have c: "cleanAnchor ''Composing Styles'' = ''composing-styles''" by code_simp
  have d: "cleanAnchor ''$as prop'' = ''as-prop''" by code_simp
  have e: "cleanAnchor [] = []" by code_simp
  from a isSlug_cleanAnchor[of s] b c d e show ?thesis by blast
qed

text \<open>
  For instance \<^verbatim>\<open>"composing-styles"\<close> is a lowercase hyphenated string and passes through
  unchanged, and transforming \<^verbatim>\<open>"  --Styled   Components!! "\<close> twice is transforming it once.
\<close>

theorem C9_witness:
  "isSlug ''composing-styles''
   \<and> cleanAnchor ''composing-styles'' = ''composing-styles''
   \<and> cleanAnchor ''  --Styled   Components!! '' = ''styled-components''
   \<and> cleanAnchor (cleanAnchor ''  --Styled   Components!! '') = ''styled-components''"
proof -
  have s: "isSlug ''composing-styles''" by code_simp
  have v: "cleanAnchor ''  --Styled   Components!! '' = ''styled-components''" by code_simp
  from C9_cleanAnchor_idempotent[of "''composing-styles''"] s
  have a: "cleanAnchor ''composing-styles'' = ''composing-styles''" by blast
  from C9_cleanAnchor_idempotent[of "''  --Styled   Components!! ''"] v
  have b: "cleanAnchor (cleanAnchor ''  --Styled   Components!! '') = ''styled-components''" by simp
  from s a v b show ?thesis by blast
qed

subsection \<open>C10\<close>

text \<open>
  C10. The recomputation is memoryless: whether \<^verbatim>\<open>onScroll\<close> completes, and the active
  anchor it sets when it does, are the same from any two pages, whatever their stored
  active anchor was, for the same route table, path and DOM.
\<close>

theorem C10_onScroll_memoryless:
  "completed (onScroll ROUTES p d pg1) = completed (onScroll ROUTES p d pg2)
   \<and> (completed (onScroll ROUTES p d pg1) \<longrightarrow>
        activeAnchor (pageOf (onScroll ROUTES p d pg1)) = activeAnchor (pageOf (onScroll ROUTES p d pg2)))"
proof (cases "List.find (pathMatches p) ROUTES")
  case None
  then show ?thesis by (simp add: onScroll_no_route)
next
  case (Some r)
  show ?thesis
  proof (cases "anchors r")
    case None
    with Some show ?thesis by (simp add: onScroll_no_anchors)
  next
    case (Some as)
    note r = \<open>List.find (pathMatches p) ROUTES = Some r\<close>
    show ?thesis
    proof (cases "\<forall>a\<in>set as. present d a")
      case True
      then show ?thesis by (simp add: onScroll_present[OF r Some True])
    next
      case False
      then have m: "\<exists>a\<in>set as. \<not> present d a" by simp
      show ?thesis by (simp add: onScroll_missing[OF r Some m])
    qed
  qed
qed

text \<open>
  On the small site: from a page whose active anchor is A and from one whose active anchor
  is C, the same DOM gives the active anchor B.
\<close>

theorem C10_witness:
  "completed (onScroll exampleRoutes ''/react'' domAB (initialPage exampleRoutes ''/react'' {}))
   \<and> activeAnchor (initialPage exampleRoutes ''/react'' {}) = Str ''A''
   \<and> activeAnchor (pageOf (onScroll exampleRoutes ''/react'' domAB (initialPage exampleRoutes ''/react'' {}))) = Str ''B''
   \<and> activeAnchor (pageOf (onScroll exampleRoutes ''/react'' domAB
         ((initialPage exampleRoutes ''/react'' {})\<lparr>activeAnchor := Str ''C''\<rparr>))) = Str ''B''"
proof -
  have c: "completed (onScroll exampleRoutes ''/react'' domAB (initialPage exampleRoutes ''/react'' {}))"
    by code_simp
  have i: "activeAnchor (initialPage exampleRoutes ''/react'' {}) = Str ''A''" by code_simp
  have a: "activeAnchor (pageOf (onScroll exampleRoutes ''/react'' domAB (initialPage exampleRoutes ''/react'' {}))) = Str ''B''"
    by code_simp
  from C10_onScroll_memoryless[of exampleRoutes "''/react''" domAB "initialPage exampleRoutes ''/react'' {}"
      "(initialPage exampleRoutes ''/react'' {})\<lparr>activeAnchor := Str ''C''\<rparr>"] c a
  have "activeAnchor (pageOf (onScroll exampleRoutes ''/react'' domAB
         ((initialPage exampleRoutes ''/react'' {})\<lparr>activeAnchor := Str ''C''\<rparr>))) = Str ''B''"
    by simp
  with c i a show ?thesis by blast
qed

end
